theory Spec2Isabelle
  imports Main "HOL-Library.Word"
begin

section \<open>Memory, pointers and exceptions\<close>

text \<open>
  The header \<^verbatim>\<open>src/str_helpers.h\<close> converts between UTF-8 byte strings, wide-character
  strings and UTF-16 strings of the ICU library, and defines the class
  \<^verbatim>\<open>UCharBuffer\<close>, which holds a NUL-terminated UTF-16 string that it either owns
  (allocated with \<^verbatim>\<open>new UChar[]\<close>) or only points to.

  A \<^verbatim>\<open>UChar\<close> is a 16-bit code unit (\<^verbatim>\<open>static_assert(U_SIZEOF_UCHAR == 2)\<close>).
  An \<^verbatim>\<open>int32_t\<close> value is an integer. The code does one addition on such values,
  \<^verbatim>\<open>length + 1\<close> in \<^verbatim>\<open>UCharBuffer::owned\<close>, and the model checks that one against
  \<^verbatim>\<open>INT32_MAX\<close>.
\<close>

type_synonym UChar = "16 word"
type_synonym int32_t = int

definition INT32_MAX :: int32_t where
  "INT32_MAX = 2147483647"

text \<open>
  A \<^verbatim>\<open>const UChar*\<close> is one of: the null pointer; the address of the function-local
  \<^verbatim>\<open>static UChar empty[1] = {0}\<close> of \<^verbatim>\<open>UCharBuffer::null()\<close>; a block returned by
  \<^verbatim>\<open>new UChar[n]\<close>; or storage that belongs to the caller (the characters of a wide
  string, seen through \<^verbatim>\<open>reinterpret_cast<const UChar*>\<close>).
\<close>

datatype ptr = nullptr | static_empty | heap_block nat | caller_storage nat

text \<open>
  What can go wrong: the three exceptions the code can meet (\<^verbatim>\<open>new[]\<close> with a negative
  size, \<^verbatim>\<open>new[]\<close> when the free store cannot supply the array, the transcoder's
  \<^verbatim>\<open>conversion_error\<close>), and two kinds of undefined behaviour that the model makes
  visible (\<^verbatim>\<open>delete[]\<close> of something that is not a live block of \<^verbatim>\<open>new[]\<close>, and
  reading a C string through a pointer to nothing or to an array with no terminator).
\<close>

datatype error =
  bad_array_new_length | bad_alloc | conversion_error | invalid_delete | invalid_read

text \<open>
  The free store: the live blocks of \<^verbatim>\<open>new UChar[]\<close>, the next fresh block number,
  the indeterminate contents that a fresh array starts with (\<^verbatim>\<open>new UChar[n]\<close> does
  not initialise its elements), and which requests the store can meet: the store is
  shared with the rest of the program, so whether it can supply an array of \<open>n\<close> code
  units is given by \<open>supplies\<close> and not computed from the blocks of this model.
  \<^verbatim>\<open>new UChar[n]\<close> throws \<^verbatim>\<open>std::bad_array_new_length\<close> for a negative \<open>n\<close> and
  \<^verbatim>\<open>std::bad_alloc\<close> when the store cannot supply the array.
\<close>

record heap =
  blocks :: "nat \<Rightarrow> UChar list option"
  next_block :: nat
  uninit :: "nat \<Rightarrow> UChar"
  supplies :: "nat \<Rightarrow> bool"

definition new_UChar_array :: "int32_t \<Rightarrow> heap \<Rightarrow> error + (ptr \<times> heap)" where
  "new_UChar_array n h =
     (if n < 0 then Inl bad_array_new_length
      else if \<not> supplies h (nat n) then Inl bad_alloc
      else Inr (heap_block (next_block h),
                h\<lparr>blocks := (blocks h)(next_block h \<mapsto> map (uninit h) [0..<nat n]),
                  next_block := Suc (next_block h)\<rparr>))"

definition delete_UChar_array :: "ptr \<Rightarrow> heap \<Rightarrow> error + heap" where
  "delete_UChar_array p h =
     (case p of
        nullptr \<Rightarrow> Inr h
      | heap_block b \<Rightarrow>
          (if blocks h b = None then Inl invalid_delete
           else Inr (h\<lparr>blocks := (blocks h)(b := None)\<rparr>))
      | static_empty \<Rightarrow> Inl invalid_delete
      | caller_storage a \<Rightarrow> Inl invalid_delete)"

section \<open>The class UCharBuffer\<close>

text \<open>
  \<^verbatim>\<open>
  class UCharBuffer {
      bool m_owned;
      const UChar *m_data;
      int32_t m_capacity;
      UCharBuffer(bool owned, const UChar *data, int32_t capacity)
          : m_owned(owned), m_data(data), m_capacity(capacity) {}
  \<close>
\<close>

record UCharBuffer =
  m_owned :: bool
  m_data :: ptr
  m_capacity :: int32_t

text \<open>
  \<^verbatim>\<open>static UCharBuffer owned(int32_t length)
    { return UCharBuffer(true, new UChar[length + 1], length + 1); }\<close>
  \<^verbatim>\<open>length + 1\<close> overflows when \<^verbatim>\<open>length\<close> is \<^verbatim>\<open>INT32_MAX\<close>: the sum wraps to a
  negative size, and \<^verbatim>\<open>new[]\<close> throws \<^verbatim>\<open>std::bad_array_new_length\<close>.
\<close>

definition UCharBuffer_owned :: "int32_t \<Rightarrow> heap \<Rightarrow> error + (UCharBuffer \<times> heap)" where
  "UCharBuffer_owned len h =
     (if INT32_MAX < len + 1 then Inl bad_array_new_length
      else
        (case new_UChar_array (len + 1) h of
           Inl e \<Rightarrow> Inl e
         | Inr (p, h') \<Rightarrow> Inr (\<lparr>m_owned = True, m_data = p, m_capacity = len + 1\<rparr>, h')))"

text \<open>
  \<^verbatim>\<open>static UCharBuffer non_owned(const UChar *data) { return UCharBuffer(false, data, -1); }\<close>
\<close>

definition UCharBuffer_non_owned :: "ptr \<Rightarrow> UCharBuffer" where
  "UCharBuffer_non_owned data = \<lparr>m_owned = False, m_data = data, m_capacity = - 1\<rparr>"

text \<open>
  \<^verbatim>\<open>static UCharBuffer null()
    { static UChar empty[1] = {0}; return UCharBuffer(false, empty, 0); }\<close>
\<close>

definition UCharBuffer_null :: UCharBuffer where
  "UCharBuffer_null = \<lparr>m_owned = False, m_data = static_empty, m_capacity = 0\<rparr>"

text \<open>
  The move constructor builds the new holder from the fields of \<^verbatim>\<open>other\<close> and resets
  them with \<^verbatim>\<open>std::exchange\<close>. The model returns the new holder and what is left of
  \<^verbatim>\<open>other\<close>.
  \<^verbatim>\<open>
  UCharBuffer(UCharBuffer&& other) noexcept
      : m_owned(std::exchange(other.m_owned, false)),
        m_data(std::exchange(other.m_data, nullptr)),
        m_capacity(std::exchange(other.m_capacity, 0)) {}
  \<close>
\<close>

definition UCharBuffer_move :: "UCharBuffer \<Rightarrow> UCharBuffer \<times> UCharBuffer" where
  "UCharBuffer_move other =
     (\<lparr>m_owned = m_owned other, m_data = m_data other, m_capacity = m_capacity other\<rparr>,
      other\<lparr>m_owned := False, m_data := nullptr, m_capacity := 0\<rparr>)"

text \<open>
  \<^verbatim>\<open>~UCharBuffer() { if (m_owned) delete[] m_data; }\<close>
\<close>

definition UCharBuffer_dtor :: "UCharBuffer \<Rightarrow> heap \<Rightarrow> error + heap" where
  "UCharBuffer_dtor b h = (if m_owned b then delete_UChar_array (m_data b) h else Inr h)"

text \<open>
  \<^verbatim>\<open>operator const UChar*() const { return m_data; }
  UChar* data() { return const_cast<UChar*>(m_data); }
  int32_t capacity() { return m_capacity; }\<close>
\<close>

definition data :: "UCharBuffer \<Rightarrow> ptr" where
  "data b = m_data b"

definition capacity :: "UCharBuffer \<Rightarrow> int32_t" where
  "capacity b = m_capacity b"

section \<open>The ICU string transforms\<close>

text \<open>
  \<^verbatim>\<open>u_strFromUTF8Lenient\<close> and \<^verbatim>\<open>u_strFromUTF32\<close> belong to the ICU library, not to
  this repository, so \<^verbatim>\<open>to_icu_raw\<close> takes them as parameters. Both have the C
  signature
  \<^verbatim>\<open>UChar* f(UChar *dest, int32_t destCapacity, int32_t *pDestLength,
           const T *src, int32_t srcLength, UErrorCode *pErrorCode)\<close>
  and are always called with \<^verbatim>\<open>srcLength = -1\<close> (a NUL-terminated source). A transform
  is modelled as a function of the contents of \<^verbatim>\<open>dest\<close> (\<open>None\<close> for a null pointer),
  \<^verbatim>\<open>destCapacity\<close>, the array at \<^verbatim>\<open>src\<close> and the incoming error code; it returns the
  new contents of \<^verbatim>\<open>dest\<close> (of no meaning when \<^verbatim>\<open>dest\<close> is null), the length it
  stores through \<^verbatim>\<open>pDestLength\<close> (\<open>None\<close> when it returns before storing one) and the
  outgoing error code.
\<close>

type_synonym UErrorCode = int

type_synonym 'c strFrom =
  "UChar list option \<Rightarrow> int32_t \<Rightarrow> 'c list \<Rightarrow> UErrorCode
     \<Rightarrow> UChar list \<times> int32_t option \<times> UErrorCode"

text \<open>
  Modelled from the spec: the error codes of the Unicode library, whose header
  \<^verbatim>\<open>unicode/utypes.h\<close> is not part of this repository. A pass ``reports failure'' when
  \<^verbatim>\<open>U_FAILURE\<close> holds of its error code. As in ICU, \<^verbatim>\<open>U_ZERO_ERROR\<close> is 0, warnings are
  negative, and \<^verbatim>\<open>U_FAILURE(x)\<close> is \<^verbatim>\<open>x > U_ZERO_ERROR\<close>.
\<close>

definition U_ZERO_ERROR :: UErrorCode where
  "U_ZERO_ERROR = 0"

definition U_FAILURE :: "UErrorCode \<Rightarrow> bool" where
  "U_FAILURE x = (x > U_ZERO_ERROR)"

text \<open>Reading and writing the array behind a pointer into the free store.\<close>

definition heap_load :: "heap \<Rightarrow> ptr \<Rightarrow> UChar list option" where
  "heap_load h p = (case p of heap_block b \<Rightarrow> blocks h b | _ \<Rightarrow> None)"

definition heap_store :: "ptr \<Rightarrow> UChar list \<Rightarrow> heap \<Rightarrow> heap" where
  "heap_store p us h =
     (case p of heap_block b \<Rightarrow> h\<lparr>blocks := (blocks h)(b \<mapsto> us)\<rparr> | _ \<Rightarrow> h)"

section \<open>to_icu_raw\<close>

text \<open>
  \<^verbatim>\<open>
  inline UCharBuffer to_icu_raw(const char *str)
  {
      int32_t destLen = 0;
      UErrorCode err = U_ZERO_ERROR;
      u_strFromUTF8Lenient(nullptr, 0, &destLen, str, -1, &err);
      if (!destLen)
          return UCharBuffer::null();
      auto buf = UCharBuffer::owned(destLen);
      err = U_ZERO_ERROR;
      u_strFromUTF8Lenient(buf.data(), buf.capacity(), nullptr, str, -1, &err);
      if (U_FAILURE(err))
          return UCharBuffer::null();
      return buf;
  }
  \<close>
  \<^verbatim>\<open>str\<close> is the byte array the pointer refers to. When the function returns
  \<^verbatim>\<open>null()\<close> after the allocation, the destructor of the local \<^verbatim>\<open>buf\<close> runs.
  \<^verbatim>\<open>return buf\<close> moves the local into the result (or constructs it in place); the
  destructor of the moved-from local runs then.
\<close>

definition to_icu_raw_char ::
  "8 word strFrom \<Rightarrow> 8 word list \<Rightarrow> heap \<Rightarrow> error + (UCharBuffer \<times> heap)" where
  "to_icu_raw_char u_strFromUTF8Lenient str h =
     (case u_strFromUTF8Lenient None 0 str U_ZERO_ERROR of
        (_, stored, _) \<Rightarrow>
          (let destLen = (case stored of None \<Rightarrow> 0 | Some n \<Rightarrow> n) in
           if destLen = 0 then Inr (UCharBuffer_null, h)
           else
             (case UCharBuffer_owned destLen h of
                Inl e \<Rightarrow> Inl e
              | Inr (buf, h1) \<Rightarrow>
                  (case u_strFromUTF8Lenient (heap_load h1 (data buf)) (capacity buf) str
                          U_ZERO_ERROR of
                     (dest, _, err) \<Rightarrow>
                       (let h2 = heap_store (data buf) dest h1 in
                        if U_FAILURE err then
                          (case UCharBuffer_dtor buf h2 of
                             Inl e \<Rightarrow> Inl e
                           | Inr h3 \<Rightarrow> Inr (UCharBuffer_null, h3))
                        else
                          (case UCharBuffer_move buf of
                             (result, buf') \<Rightarrow>
                               (case UCharBuffer_dtor buf' h2 of
                                  Inl e \<Rightarrow> Inl e
                                | Inr h3 \<Rightarrow> Inr (result, h3))))))))"

text \<open>
  The width of \<^verbatim>\<open>wchar_t\<close> is fixed when the header is compiled
  (\<^verbatim>\<open>SIZEOF_WCHAR_T\<close>, in bytes). In the model it is the width of the word type
  \<open>'w\<close> of the wide characters. The source is a pointer into the caller's memory
  \<open>wm\<close>, which maps an address to the array of wide characters stored there.
  \<^verbatim>\<open>
  inline UCharBuffer to_icu_raw(const wchar_t *str)
  {
      static_assert(SIZEOF_WCHAR_T == 2 || SIZEOF_WCHAR_T == 4, "unexpected wchar_t size");
      static_assert(U_SIZEOF_UCHAR == 2, "unexpected UChar size");
  #if SIZEOF_WCHAR_T == 2
      // read-only aliasing ctor, doesn't copy data
      return UCharBuffer::non_owned(reinterpret_cast<const UChar*>(str));
  #else
      int32_t destLen = 0;
      UErrorCode err = U_ZERO_ERROR;
      u_strFromUTF32(nullptr, 0, &destLen, reinterpret_cast<const UChar32*>(str), -1, &err);
      if (!destLen)
          return UCharBuffer::null();
      auto buf = UCharBuffer::owned(destLen);
      err = U_ZERO_ERROR;
      u_strFromUTF32(buf.data(), buf.capacity(), nullptr,
                     reinterpret_cast<const UChar32*>(str), -1, &err);
      if (U_FAILURE(err))
          return UCharBuffer::null();
      return buf;
  #endif
  }
  \<close>
\<close>

definition SIZEOF_WCHAR_T :: "'w::len itself \<Rightarrow> nat" where
  "SIZEOF_WCHAR_T t = LENGTH('w) div 8"

definition wide_load :: "(nat \<Rightarrow> 'w::len word list option) \<Rightarrow> ptr \<Rightarrow> 'w word list option" where
  "wide_load wm p = (case p of caller_storage a \<Rightarrow> wm a | _ \<Rightarrow> None)"

definition to_icu_raw_wchar_t ::
  "32 word strFrom \<Rightarrow> (nat \<Rightarrow> 'w::len word list option) \<Rightarrow> ptr \<Rightarrow> heap
     \<Rightarrow> error + (UCharBuffer \<times> heap)" where
  "to_icu_raw_wchar_t u_strFromUTF32 wm str h =
     (if SIZEOF_WCHAR_T TYPE('w) = 2 then Inr (UCharBuffer_non_owned str, h)
      else
        (case wide_load wm str of
           None \<Rightarrow> Inl invalid_read
         | Some ws \<Rightarrow>
             (case u_strFromUTF32 None 0 (map ucast ws) U_ZERO_ERROR of
                (_, stored, _) \<Rightarrow>
                  (let destLen = (case stored of None \<Rightarrow> 0 | Some n \<Rightarrow> n) in
                   if destLen = 0 then Inr (UCharBuffer_null, h)
                   else
                     (case UCharBuffer_owned destLen h of
                        Inl e \<Rightarrow> Inl e
                      | Inr (buf, h1) \<Rightarrow>
                          (case u_strFromUTF32 (heap_load h1 (data buf)) (capacity buf)
                                  (map ucast ws) U_ZERO_ERROR of
                             (dest, _, err) \<Rightarrow>
                               (let h2 = heap_store (data buf) dest h1 in
                                if U_FAILURE err then
                                  (case UCharBuffer_dtor buf h2 of
                                     Inl e \<Rightarrow> Inl e
                                   | Inr h3 \<Rightarrow> Inr (UCharBuffer_null, h3))
                                else
                                  (case UCharBuffer_move buf of
                                     (result, buf') \<Rightarrow>
                                       (case UCharBuffer_dtor buf' h2 of
                                          Inl e \<Rightarrow> Inl e
                                        | Inr h3 \<Rightarrow> Inr (result, h3))))))))))"

text \<open>
  The two overloads share the text after the measure pass's source is fixed. For the
  proofs it is written once, over any transform.
\<close>

definition measure_allocate_transcode ::
  "'c strFrom \<Rightarrow> 'c list \<Rightarrow> heap \<Rightarrow> error + (UCharBuffer \<times> heap)" where
  "measure_allocate_transcode transform src h =
     (case transform None 0 src U_ZERO_ERROR of
        (_, stored, _) \<Rightarrow>
          (let destLen = (case stored of None \<Rightarrow> 0 | Some n \<Rightarrow> n) in
           if destLen = 0 then Inr (UCharBuffer_null, h)
           else
             (case UCharBuffer_owned destLen h of
                Inl e \<Rightarrow> Inl e
              | Inr (buf, h1) \<Rightarrow>
                  (case transform (heap_load h1 (data buf)) (capacity buf) src U_ZERO_ERROR of
                     (dest, _, err) \<Rightarrow>
                       (let h2 = heap_store (data buf) dest h1 in
                        if U_FAILURE err then
                          (case UCharBuffer_dtor buf h2 of
                             Inl e \<Rightarrow> Inl e
                           | Inr h3 \<Rightarrow> Inr (UCharBuffer_null, h3))
                        else
                          (case UCharBuffer_move buf of
                             (result, buf') \<Rightarrow>
                               (case UCharBuffer_dtor buf' h2 of
                                  Inl e \<Rightarrow> Inl e
                                | Inr h3 \<Rightarrow> Inr (result, h3))))))))"

section \<open>The algorithm of the specification\<close>

text \<open>
  The specification describes the raw-buffer conversion in four steps: (1) a measure
  pass with a null output buffer gives the length in UTF-16 code units, and a length
  of zero gives the shared empty singleton; (2) otherwise a buffer of length + 1 code
  units is allocated; (3) the transform is run again into that buffer, and a failure of
  this second pass gives the empty singleton; (4) otherwise the owned buffer is the
  result. \<open>raw_buffer_of\<close> is that description, over an abstract result: the empty
  singleton, or an owned buffer with its capacity and contents. \<open>junk\<close> is what the
  fresh buffer holds before the second pass.
\<close>

datatype raw_buffer = Empty_singleton | Owned_buffer int "UChar list"

definition measure_pass :: "'c strFrom \<Rightarrow> 'c list \<Rightarrow> int" where
  "measure_pass transform src =
     (case transform None 0 src U_ZERO_ERROR of (_, Some n, _) \<Rightarrow> n | (_, None, _) \<Rightarrow> 0)"

definition second_pass :: "'c strFrom \<Rightarrow> UChar list \<Rightarrow> 'c list \<Rightarrow> UChar list \<times> bool" where
  "second_pass transform buffer src =
     (case transform (Some buffer) (int (length buffer)) src U_ZERO_ERROR of
        (out, _, err) \<Rightarrow> (out, U_FAILURE err))"

definition raw_buffer_of :: "'c strFrom \<Rightarrow> (nat \<Rightarrow> UChar) \<Rightarrow> 'c list \<Rightarrow> raw_buffer" where
  "raw_buffer_of transform junk src =
     (let n = measure_pass transform src in
      if n = 0 then Empty_singleton
      else
        (case second_pass transform (map junk [0..<nat (n + 1)]) src of
           (out, failed) \<Rightarrow>
             if failed then Empty_singleton else Owned_buffer (n + 1) out))"

text \<open>
  What a holder stands for: the empty singleton is the holder that \<^verbatim>\<open>null()\<close> makes;
  an owned buffer is a holder with \<^verbatim>\<open>m_owned\<close> set whose data is a live block.
\<close>

definition holder_abs :: "heap \<Rightarrow> UCharBuffer \<Rightarrow> raw_buffer option" where
  "holder_abs h b =
     (if b = UCharBuffer_null then Some Empty_singleton
      else if m_owned b then
        (case m_data b of
           heap_block k \<Rightarrow>
             (case blocks h k of
                Some us \<Rightarrow> Some (Owned_buffer (m_capacity b) us)
              | None \<Rightarrow> None)
         | _ \<Rightarrow> None)
      else None)"

text \<open>
  \<^verbatim>\<open>owned(n)\<close> gets its buffer when \<open>n + 1\<close> does not overflow and the store supplies
  \<open>n + 1\<close> code units.
\<close>

definition allocates :: "heap \<Rightarrow> int32_t \<Rightarrow> bool" where
  "allocates h n = (n < INT32_MAX \<and> supplies h (nat (n + 1)))"

text \<open>
  The heap after a buffer was allocated and released again (the second pass failed), and
  after a buffer was allocated and filled.
\<close>

definition heap_after_release :: "heap \<Rightarrow> heap" where
  "heap_after_release h =
     h\<lparr>blocks := (blocks h)(next_block h := None), next_block := Suc (next_block h)\<rparr>"

definition heap_with_buffer :: "UChar list \<Rightarrow> heap \<Rightarrow> heap" where
  "heap_with_buffer us h =
     h\<lparr>blocks := (blocks h)(next_block h \<mapsto> us), next_block := Suc (next_block h)\<rparr>"

section \<open>Reading a string through a holder\<close>

text \<open>
  The array behind a \<^verbatim>\<open>const UChar*\<close>: \<open>um\<close> is the caller's memory seen as UTF-16
  code units. A C string is the code units before the first NUL; an array without a NUL
  is not a C string. On a platform with 16-bit \<^verbatim>\<open>wchar_t\<close>, \<open>as_UChars\<close> is the view
  of the caller's wide characters that \<^verbatim>\<open>reinterpret_cast<const UChar*>\<close> gives.
\<close>

definition load :: "heap \<Rightarrow> (nat \<Rightarrow> UChar list option) \<Rightarrow> ptr \<Rightarrow> UChar list option" where
  "load h um p =
     (case p of
        nullptr \<Rightarrow> None
      | static_empty \<Rightarrow> Some [0]
      | heap_block b \<Rightarrow> blocks h b
      | caller_storage a \<Rightarrow> um a)"

definition c_string :: "'a::len word list \<Rightarrow> 'a word list option" where
  "c_string us = (if 0 \<in> set us then Some (takeWhile (\<lambda>u. u \<noteq> 0) us) else None)"

definition holder_string :: "heap \<Rightarrow> (nat \<Rightarrow> UChar list option) \<Rightarrow> UCharBuffer \<Rightarrow> UChar list option" where
  "holder_string h um b = (case load h um (m_data b) of None \<Rightarrow> None | Some us \<Rightarrow> c_string us)"

definition as_UChars :: "(nat \<Rightarrow> 'w::len word list option) \<Rightarrow> nat \<Rightarrow> UChar list option" where
  "as_UChars wm a = map_option (map ucast) (wm a)"

section \<open>What to_icu_raw needs of a transform\<close>

text \<open>
  The properties of an ICU transform that the raw-buffer conversion relies on, for a
  NUL-terminated source: the measure pass either stores no length (it failed early), or
  stores a length that is not negative and is zero for the empty string; and a second
  pass into a buffer of that length plus one either reports a failure or leaves a
  buffer of the same size with a NUL at the measured length.
\<close>

definition icu_transform :: "'a::len word strFrom \<Rightarrow> bool" where
  "icu_transform P =
     (\<forall>src. 0 \<in> set src \<longrightarrow>
        (case P None 0 src U_ZERO_ERROR of
           (_, None, _) \<Rightarrow> True
         | (_, Some n, _) \<Rightarrow>
             0 \<le> n \<and> (hd src = 0 \<longrightarrow> n = 0) \<and>
             (\<forall>buffer. int (length buffer) = n + 1 \<longrightarrow>
                (case P (Some buffer) (n + 1) src U_ZERO_ERROR of
                   (out, _, err) \<Rightarrow>
                     U_FAILURE err \<or> (length out = length buffer \<and> out ! nat n = 0)))))"

text \<open>
  A conversion failed when the measure pass stored no length, or the second pass
  reported a failure.
\<close>

definition conversion_failed :: "'c strFrom \<Rightarrow> (nat \<Rightarrow> UChar) \<Rightarrow> 'c list \<Rightarrow> bool" where
  "conversion_failed P junk src =
     (case P None 0 src U_ZERO_ERROR of
        (_, None, _) \<Rightarrow> True
      | (_, Some n, _) \<Rightarrow> n \<noteq> 0 \<and> snd (second_pass P (map junk [0..<nat (n + 1)]) src))"

section \<open>A model of the two ICU transforms\<close>

text \<open>
  Modelled from the spec: the lenient UTF-8 to UTF-16 transform (``never fails,
  substitutes on error'') and the UTF-32 to UTF-16 transcoder (``may fail'') of the
  Unicode library, which are not part of this repository. The model follows the
  library's documented behaviour: both count the code units of the whole result, write
  the code units that fit, and terminate the buffer when there is room
  (\<^verbatim>\<open>u_terminateUChars\<close>); the lenient transform takes a byte below \<^verbatim>\<open>0xC0\<close> as one code
  unit, decodes a lead byte with its trail bytes without checking them, and replaces a
  sequence cut short by the terminator with U+FFFD; the UTF-32 transcoder stops with
  \<^verbatim>\<open>U_INVALID_CHAR_FOUND\<close>, storing no length, at a surrogate or a value above 0x10FFFF.
\<close>

definition U_ILLEGAL_ARGUMENT_ERROR :: UErrorCode where
  "U_ILLEGAL_ARGUMENT_ERROR = 1"

definition U_INVALID_CHAR_FOUND :: UErrorCode where
  "U_INVALID_CHAR_FOUND = 10"

definition U_BUFFER_OVERFLOW_ERROR :: UErrorCode where
  "U_BUFFER_OVERFLOW_ERROR = 15"

definition U_STRING_NOT_TERMINATED_WARNING :: UErrorCode where
  "U_STRING_NOT_TERMINATED_WARNING = - 124"

definition u_terminateUChars :: "UChar list \<Rightarrow> int32_t \<Rightarrow> int32_t \<Rightarrow> UErrorCode \<Rightarrow> UChar list \<times> UErrorCode" where
  "u_terminateUChars dest destCapacity len err =
     (if U_FAILURE err \<or> len < 0 then (dest, err)
      else if len < destCapacity then
        (dest[nat len := 0], if err = U_STRING_NOT_TERMINATED_WARNING then U_ZERO_ERROR else err)
      else if len = destCapacity then (dest, U_STRING_NOT_TERMINATED_WARNING)
      else (dest, U_BUFFER_OVERFLOW_ERROR))"

definition overwrite :: "UChar list \<Rightarrow> UChar list \<Rightarrow> UChar list" where
  "overwrite us dest = take (length dest) us @ drop (length us) dest"

definition U16_LEAD :: "32 word \<Rightarrow> UChar" where
  "U16_LEAD c = ucast (drop_bit 10 c + 0xD7C0)"

definition U16_TRAIL :: "32 word \<Rightarrow> UChar" where
  "U16_TRAIL c = ucast (or (and c 0x3FF) 0xDC00)"

fun lenient_units :: "8 word list \<Rightarrow> UChar list" where
  "lenient_units [] = []"
| "lenient_units (c # cs) =
     (if c = 0 then []
      else if c < 0xC0 then ucast c # lenient_units cs
      else
        (let k = (if c < 0xE0 then 1 else if c < 0xF0 then 2 else 3 :: nat);
             ts = take k (takeWhile (\<lambda>t. t \<noteq> 0) cs)
         in if length ts < k then [0xFFFD]
            else
              (if k = 1 then
                 [push_bit 6 (ucast c) + ucast (ts ! 0) - 0x3080]
               else if k = 2 then
                 [push_bit 12 (ucast c) + push_bit 6 (ucast (ts ! 0)) + ucast (ts ! 1) - 0x2080]
               else
                 (let ch = push_bit 18 (ucast c) + push_bit 12 (ucast (ts ! 0))
                           + push_bit 6 (ucast (ts ! 1)) + ucast (ts ! 2) - 0x3C82080
                  in [U16_LEAD ch, U16_TRAIL ch]))
              @ lenient_units (drop k cs)))"

text \<open>
  Modelled from the spec: the lenient UTF-8 to UTF-16 transform, over the code units
  \<open>lenient_units\<close> of the whole result.
\<close>

definition u_strFromUTF8Lenient :: "8 word strFrom" where
  "u_strFromUTF8Lenient dest destCapacity src err =
     (let d = (case dest of None \<Rightarrow> [] | Some us \<Rightarrow> us) in
      if U_FAILURE err then (d, None, err)
      else if destCapacity < 0 \<or> (dest = None \<and> 0 < destCapacity) then
        (d, None, U_ILLEGAL_ARGUMENT_ERROR)
      else
        (let us = lenient_units src in
         case u_terminateUChars (overwrite (take (nat destCapacity) us) d) destCapacity
                (int (length us)) err of
           (d', err') \<Rightarrow> (d', Some (int (length us)), err')))"

fun utf32_units :: "32 word list \<Rightarrow> UChar list \<times> bool" where
  "utf32_units [] = ([], True)"
| "utf32_units (c # cs) =
     (if c = 0 then ([], True)
      else if c < 0xD800 \<or> (0xE000 \<le> c \<and> c \<le> 0xFFFF) then
        (case utf32_units cs of (us, ok) \<Rightarrow> (ucast c # us, ok))
      else if 0x10000 \<le> c \<and> c \<le> 0x10FFFF then
        (case utf32_units cs of (us, ok) \<Rightarrow> (U16_LEAD c # U16_TRAIL c # us, ok))
      else ([], False))"

text \<open>
  Modelled from the spec: the UTF-32 to UTF-16 transcoder. \<open>utf32_units\<close> gives the code
  units converted and whether the whole source was converted.
\<close>

definition u_strFromUTF32 :: "32 word strFrom" where
  "u_strFromUTF32 dest destCapacity src err =
     (let d = (case dest of None \<Rightarrow> [] | Some us \<Rightarrow> us) in
      if U_FAILURE err then (d, None, err)
      else if destCapacity < 0 \<or> (dest = None \<and> 0 < destCapacity) then
        (d, None, U_ILLEGAL_ARGUMENT_ERROR)
      else
        (case utf32_units src of
           (us, ok) \<Rightarrow>
             (let d1 = overwrite (take (nat destCapacity) us) d in
              if \<not> ok then (d1, None, U_INVALID_CHAR_FOUND)
              else
                (case u_terminateUChars d1 destCapacity (int (length us)) err of
                   (d', err') \<Rightarrow> (d', Some (int (length us)), err')))))"

section \<open>A model of the encoding transcoder\<close>

text \<open>
  Modelled from the spec: the byte encoding transcoder \<^verbatim>\<open>boost::locale::conv::utf_to_utf\<close>
  (``strict, may fail on malformed sequences''), which is not part of this repository.
  The transcoder decodes one code point at a time with the traits of the input
  character type (UTF-8 for 8-bit, UTF-16 for 16-bit, UTF-32 for 32-bit characters) and
  encodes it with the traits of the output character type. What happens at an illegal or
  incomplete sequence is the library's \<^verbatim>\<open>method_type\<close> argument: \<open>stop\<close> throws
  \<^verbatim>\<open>conversion_error\<close> (the strict transcoder of the specification), \<open>skip\<close> drops the
  sequence. \<^verbatim>\<open>str_helpers.h\<close> passes no method, so the library's default applies
  (\<open>default_method\<close> below); the transcoder of the model takes the method as an argument.
  A decoder gets the first code unit and the code units after it, and returns what it
  decoded and how many of the following code units it consumed.
\<close>

datatype method_type = skip | stop

datatype decoded = illegal | incomplete | code_point nat

definition is_valid_codepoint :: "nat \<Rightarrow> bool" where
  "is_valid_codepoint v = (v \<le> 0x10FFFF \<and> \<not> (0xD800 \<le> v \<and> v \<le> 0xDFFF))"

text \<open>UTF-8: lead byte, trail bytes, and the checks for range, surrogates and overlong forms.\<close>

definition utf8_trail_length :: "nat \<Rightarrow> nat option" where
  "utf8_trail_length lead =
     (if lead < 128 then Some 0
      else if lead < 194 then None
      else if lead < 224 then Some 1
      else if lead < 240 then Some 2
      else if lead \<le> 244 then Some 3
      else None)"

definition utf8_width :: "nat \<Rightarrow> nat" where
  "utf8_width v = (if v \<le> 0x7F then 1 else if v \<le> 0x7FF then 2 else if v \<le> 0xFFFF then 3 else 4)"

definition utf8_is_trail :: "nat \<Rightarrow> bool" where
  "utf8_is_trail b = (128 \<le> b \<and> b < 192)"

fun utf8_trails :: "nat \<Rightarrow> nat \<Rightarrow> nat list \<Rightarrow> decoded \<times> nat" where
  "utf8_trails 0 c bs = (code_point c, 0)"
| "utf8_trails (Suc k) c [] = (incomplete, 0)"
| "utf8_trails (Suc k) c (b # bs) =
     (if \<not> utf8_is_trail b then (illegal, 1)
      else (case utf8_trails k (c * 64 + b mod 64) bs of (r, n) \<Rightarrow> (r, Suc n)))"

definition utf8_decode :: "nat \<Rightarrow> nat list \<Rightarrow> decoded \<times> nat" where
  "utf8_decode lead bs =
     (case utf8_trail_length lead of
        None \<Rightarrow> (illegal, 0)
      | Some k \<Rightarrow>
          if k = 0 then (code_point lead, 0)
          else
            (case utf8_trails k (lead mod 2 ^ (6 - k)) bs of
               (code_point c, n) \<Rightarrow>
                 if \<not> is_valid_codepoint c \<or> utf8_width c \<noteq> k + 1 then (illegal, n)
                 else (code_point c, n)
             | (r, n) \<Rightarrow> (r, n)))"

definition utf8_encode :: "nat \<Rightarrow> nat list" where
  "utf8_encode v =
     (if v \<le> 0x7F then [v]
      else if v \<le> 0x7FF then [0xC0 + v div 64, 0x80 + v mod 64]
      else if v \<le> 0xFFFF then [0xE0 + v div 4096, 0x80 + v div 64 mod 64, 0x80 + v mod 64]
      else [0xF0 + v div 262144, 0x80 + v div 4096 mod 64, 0x80 + v div 64 mod 64,
            0x80 + v mod 64])"

text \<open>UTF-16 with surrogate pairs, and UTF-32.\<close>

definition utf16_decode :: "nat \<Rightarrow> nat list \<Rightarrow> decoded \<times> nat" where
  "utf16_decode w1 ws =
     (if w1 < 0xD800 \<or> 0xDFFF < w1 then (code_point w1, 0)
      else if 0xDBFF < w1 then (illegal, 0)
      else
        (case ws of
           [] \<Rightarrow> (incomplete, 0)
         | w2 # _ \<Rightarrow>
             if w2 < 0xDC00 \<or> 0xDFFF < w2 then (illegal, 1)
             else (code_point ((w1 - 0xD800) * 1024 + (w2 - 0xDC00) + 0x10000), 1)))"

definition utf16_encode :: "nat \<Rightarrow> nat list" where
  "utf16_encode v =
     (if v \<le> 0xFFFF then [v]
      else [0xD800 + (v - 0x10000) div 1024, 0xDC00 + (v - 0x10000) mod 1024])"

definition utf32_decode :: "nat \<Rightarrow> nat list \<Rightarrow> decoded \<times> nat" where
  "utf32_decode c cs = (if is_valid_codepoint c then (code_point c, 0) else (illegal, 0))"

definition utf32_encode :: "nat \<Rightarrow> nat list" where
  "utf32_encode v = [v]"

text \<open>The loop of \<^verbatim>\<open>utf_to_utf\<close>, and the transcoder between two character types.\<close>

fun utf_to_utf_loop ::
  "(nat \<Rightarrow> nat list \<Rightarrow> decoded \<times> nat) \<Rightarrow> (nat \<Rightarrow> nat list) \<Rightarrow> method_type \<Rightarrow> nat list
     \<Rightarrow> error + nat list" where
  "utf_to_utf_loop decode encode how [] = Inr []"
| "utf_to_utf_loop decode encode how (x # xs) =
     (case decode x xs of
        (code_point c, n) \<Rightarrow>
          (case utf_to_utf_loop decode encode how (drop n xs) of
             Inl e \<Rightarrow> Inl e
           | Inr ys \<Rightarrow> Inr (encode c @ ys))
      | (_, n) \<Rightarrow>
          if how = stop then Inl conversion_error
          else utf_to_utf_loop decode encode how (drop n xs))"

definition utf_traits_decode :: "'u::len itself \<Rightarrow> nat \<Rightarrow> nat list \<Rightarrow> decoded \<times> nat" where
  "utf_traits_decode t =
     (if LENGTH('u) = 8 then utf8_decode else if LENGTH('u) = 16 then utf16_decode else utf32_decode)"

definition utf_traits_encode :: "'u::len itself \<Rightarrow> nat \<Rightarrow> nat list" where
  "utf_traits_encode t =
     (if LENGTH('u) = 8 then utf8_encode else if LENGTH('u) = 16 then utf16_encode else utf32_encode)"


text \<open>
  Modelled from the spec: \<^verbatim>\<open>utf_to_utf<CharOut>(str, how)\<close> from characters of type
  \<open>'i\<close> to characters of type \<open>'o\<close>.
\<close>

definition boost_utf_to_utf :: "method_type \<Rightarrow> 'i::len word list \<Rightarrow> error + 'o::len word list" where
  "boost_utf_to_utf how str =
     map_sum id (map of_nat)
       (utf_to_utf_loop (utf_traits_decode TYPE('i)) (utf_traits_encode TYPE('o)) how (map unat str))"

text \<open>
  Well-formed strings, independently of the decoders: UTF-8 as the Unicode standard's
  table of well-formed byte sequences (no overlong forms, no surrogates, nothing above
  U+10FFFF), UTF-16 with every surrogate paired, UTF-32 with valid code points only.
\<close>

fun valid_utf8 :: "nat list \<Rightarrow> bool" where
  "valid_utf8 [] = True"
| "valid_utf8 (b # bs) =
     (if b < 0x80 then valid_utf8 bs
      else if 0xC2 \<le> b \<and> b \<le> 0xDF then
        (case bs of
           t1 # r \<Rightarrow> utf8_is_trail t1 \<and> valid_utf8 r
         | _ \<Rightarrow> False)
      else if 0xE0 \<le> b \<and> b \<le> 0xEF then
        (case bs of
           t1 # t2 # r \<Rightarrow>
             utf8_is_trail t1 \<and> utf8_is_trail t2 \<and> (b = 0xE0 \<longrightarrow> 0xA0 \<le> t1)
             \<and> (b = 0xED \<longrightarrow> t1 \<le> 0x9F) \<and> valid_utf8 r
         | _ \<Rightarrow> False)
      else if 0xF0 \<le> b \<and> b \<le> 0xF4 then
        (case bs of
           t1 # t2 # t3 # r \<Rightarrow>
             utf8_is_trail t1 \<and> utf8_is_trail t2 \<and> utf8_is_trail t3
             \<and> (b = 0xF0 \<longrightarrow> 0x90 \<le> t1) \<and> (b = 0xF4 \<longrightarrow> t1 \<le> 0x8F) \<and> valid_utf8 r
         | _ \<Rightarrow> False)
      else False)"

fun valid_utf16 :: "nat list \<Rightarrow> bool" where
  "valid_utf16 [] = True"
| "valid_utf16 (w # ws) =
     (if w < 0xD800 \<or> (0xDFFF < w \<and> w \<le> 0xFFFF) then valid_utf16 ws
      else if 0xD800 \<le> w \<and> w \<le> 0xDBFF then
        (case ws of
           w2 # r \<Rightarrow> 0xDC00 \<le> w2 \<and> w2 \<le> 0xDFFF \<and> valid_utf16 r
         | [] \<Rightarrow> False)
      else False)"

definition valid_utf32 :: "nat list \<Rightarrow> bool" where
  "valid_utf32 cs = list_all is_valid_codepoint cs"

definition valid_units :: "'u::len itself \<Rightarrow> nat list \<Rightarrow> bool" where
  "valid_units t xs =
     (if LENGTH('u) = 8 then valid_utf8 xs
      else if LENGTH('u) = 16 then valid_utf16 xs
      else valid_utf32 xs)"

definition valid_string :: "'u::len word list \<Rightarrow> bool" where
  "valid_string str = valid_units TYPE('u) (map unat str)"

section \<open>to_utf8 and to_wstring\<close>

text \<open>
  The copying conversions hand their argument to the transcoder, which is a parameter:
  \<^verbatim>\<open>
  inline std::string to_utf8(const std::wstring& str)
  { return boost::locale::conv::utf_to_utf<char>(str); }
  inline std::wstring to_wstring(const std::string& utf8str)
  { return boost::locale::conv::utf_to_utf<wchar_t>(utf8str); }
  \<close>
\<close>

definition to_utf8_wstring ::
  "('w::len word list \<Rightarrow> error + 8 word list) \<Rightarrow> 'w word list \<Rightarrow> error + 8 word list" where
  "to_utf8_wstring utf_to_utf_char str = utf_to_utf_char str"

definition to_wstring_string ::
  "(8 word list \<Rightarrow> error + 'w::len word list) \<Rightarrow> 8 word list \<Rightarrow> error + 'w word list" where
  "to_wstring_string utf_to_utf_wchar_t utf8str = utf_to_utf_wchar_t utf8str"

text \<open>
  The overloads that take a pointer read a C string (the characters before the first
  NUL). The one for \<^verbatim>\<open>unsigned char\<close> does not call the transcoder:
  \<^verbatim>\<open>
  inline std::string to_utf8(const wchar_t *str)
  { return boost::locale::conv::utf_to_utf<char>(str); }
  inline std::string to_utf8(const unsigned char *str)
  { return std::string(reinterpret_cast<const char*>(str)); }
  \<close>
\<close>

definition to_utf8_wchar_t ::
  "('w::len word list \<Rightarrow> error + 8 word list) \<Rightarrow> 'w word list \<Rightarrow> error + 8 word list" where
  "to_utf8_wchar_t utf_to_utf_char str =
     (case c_string str of None \<Rightarrow> Inl invalid_read | Some ws \<Rightarrow> utf_to_utf_char ws)"

definition to_utf8_unsigned_char :: "8 word list \<Rightarrow> error + 8 word list" where
  "to_utf8_unsigned_char str =
     (case c_string str of None \<Rightarrow> Inl invalid_read | Some bytes \<Rightarrow> Inr bytes)"

section \<open>to_icu and back\<close>






text \<open>
  For the examples: an empty free store whose fresh arrays hold \<^verbatim>\<open>0xAAAA\<close> and which
  meets every request, and the same store when it can supply nothing.
\<close>

definition heap0 :: heap where
  "heap0 = \<lparr>blocks = (\<lambda>_. None), next_block = 0, uninit = (\<lambda>_. 0xAAAA),
            supplies = (\<lambda>_. True)\<rparr>"

definition heap_exhausted :: heap where
  "heap_exhausted = heap0\<lparr>supplies := (\<lambda>_. False)\<rparr>"

section \<open>Properties of UCharBuffer\<close>

text \<open>
  Claim C5. After move construction from any holder, owned or not, the moved-from holder
  has \<^verbatim>\<open>m_owned = false\<close>, \<^verbatim>\<open>m_data = nullptr\<close> and \<^verbatim>\<open>m_capacity = 0\<close>; its
  destructor leaves every heap as it is, and never reaches \<^verbatim>\<open>delete[]\<close>. The new holder
  has the fields the old one had, so the buffer is released by the new holder's
  destructor alone.
\<close>

theorem move_resets_source:
  "snd (UCharBuffer_move b) = \<lparr>m_owned = False, m_data = nullptr, m_capacity = 0\<rparr>
   \<and> UCharBuffer_dtor (snd (UCharBuffer_move b)) h = Inr h
   \<and> fst (UCharBuffer_move b) = b
   \<and> UCharBuffer_dtor (fst (UCharBuffer_move b)) h = UCharBuffer_dtor b h"
  by (simp add: UCharBuffer_move_def UCharBuffer_dtor_def)

text \<open>
  Claim C9. \<^verbatim>\<open>capacity()\<close> returns the stored \<^verbatim>\<open>m_capacity\<close> as it is: a holder made by
  \<^verbatim>\<open>owned(n)\<close> reports \<open>n + 1\<close>, one made by \<^verbatim>\<open>non_owned(p)\<close> reports \<open>-1\<close> (the
  comment on the accessor says 0), \<^verbatim>\<open>null()\<close> reports 0, and a moved-from holder
  reports 0.
\<close>

theorem capacity_reports_field:
  "capacity b = m_capacity b
   \<and> (\<forall>b' h'. UCharBuffer_owned n h = Inr (b', h') \<longrightarrow> capacity b' = n + 1)
   \<and> capacity (UCharBuffer_non_owned p) = - 1
   \<and> capacity UCharBuffer_null = 0
   \<and> capacity (snd (UCharBuffer_move b)) = 0"
  by (auto simp: capacity_def UCharBuffer_owned_def UCharBuffer_non_owned_def UCharBuffer_null_def
      UCharBuffer_move_def split: sum.splits)

theorem capacity_reports_field_witness:
  "(case UCharBuffer_owned 3 heap0 of Inl e \<Rightarrow> False | Inr (b', h') \<Rightarrow> capacity b' = 4)
   \<and> capacity (UCharBuffer_non_owned (caller_storage 5)) = - 1
   \<and> capacity (snd (UCharBuffer_move \<lparr>m_owned = True, m_data = heap_block 0, m_capacity = 4\<rparr>)) = 0"
  using capacity_reports_field[of "\<lparr>m_owned = True, m_data = heap_block 0, m_capacity = 4\<rparr>" 3 heap0
      "caller_storage 5"]
  by (simp add: UCharBuffer_owned_def new_UChar_array_def heap0_def INT32_MAX_def
      split: sum.splits)

section \<open>Properties of to_icu_raw\<close>

lemma UCharBuffer_owned_ok:
  "0 \<le> n + 1 \<Longrightarrow> allocates h n \<Longrightarrow> UCharBuffer_owned n h =
     Inr (\<lparr>m_owned = True, m_data = heap_block (next_block h), m_capacity = n + 1\<rparr>,
          heap_with_buffer (map (uninit h) [0..<nat (n + 1)]) h)"
  by (simp add: new_UChar_array_def UCharBuffer_owned_def heap_with_buffer_def allocates_def)

lemma UCharBuffer_owned_overflow:
  "INT32_MAX \<le> n \<Longrightarrow> UCharBuffer_owned n h = Inl bad_array_new_length"
  by (simp add: UCharBuffer_owned_def)

lemma UCharBuffer_owned_exhausted:
  "0 \<le> n + 1 \<Longrightarrow> n < INT32_MAX \<Longrightarrow> \<not> supplies h (nat (n + 1)) \<Longrightarrow>
   UCharBuffer_owned n h = Inl bad_alloc"
  by (simp add: UCharBuffer_owned_def new_UChar_array_def)

lemma to_icu_raw_char_body:
  "to_icu_raw_char P str h = measure_allocate_transcode P str h"
  by (simp add: to_icu_raw_char_def measure_allocate_transcode_def)

lemma to_icu_raw_wchar_t_body:
  fixes wm :: "nat \<Rightarrow> 32 word list option"
  shows "to_icu_raw_wchar_t P wm str h =
    (case wide_load wm str of None \<Rightarrow> Inl invalid_read
     | Some ws \<Rightarrow> measure_allocate_transcode P (map ucast ws) h)"
  by (simp add: to_icu_raw_wchar_t_def measure_allocate_transcode_def SIZEOF_WCHAR_T_def
      split: option.splits)

lemma to_icu_raw_wchar_t_alias:
  fixes wm :: "nat \<Rightarrow> 16 word list option"
  shows "to_icu_raw_wchar_t P wm str h = Inr (UCharBuffer_non_owned str, h)"
  by (simp add: to_icu_raw_wchar_t_def SIZEOF_WCHAR_T_def)

lemma measure_allocate_transcode_zero:
  "measure_pass P src = 0 \<Longrightarrow> measure_allocate_transcode P src h = Inr (UCharBuffer_null, h)"
  by (auto simp: measure_allocate_transcode_def measure_pass_def split: prod.splits option.splits)

lemma measure_allocate_transcode_throws:
  assumes "measure_pass P src \<noteq> 0" and "UCharBuffer_owned (measure_pass P src) h = Inl e"
  shows "measure_allocate_transcode P src h = Inl e"
proof -
  obtain d0 stored e0 where m: "P None 0 src U_ZERO_ERROR = (d0, stored, e0)"
    by (cases "P None 0 src U_ZERO_ERROR") auto
  have k: "(case stored of None \<Rightarrow> 0 | Some n \<Rightarrow> n) = measure_pass P src"
    unfolding measure_pass_def m by (simp split: option.splits)
  show ?thesis
    unfolding measure_allocate_transcode_def m
    using assms by (simp add: k Let_def)
qed

lemma measure_allocate_transcode_pos:
  assumes n: "0 < measure_pass P src" and a: "allocates h (measure_pass P src)"
  shows "measure_allocate_transcode P src h =
    (case second_pass P (map (uninit h) [0..<nat (measure_pass P src + 1)]) src of
       (out, failed) \<Rightarrow>
         if failed then Inr (UCharBuffer_null, heap_after_release h)
         else Inr (\<lparr>m_owned = True, m_data = heap_block (next_block h),
                    m_capacity = measure_pass P src + 1\<rparr>, heap_with_buffer out h))"
proof -
  obtain d0 stored e0 where m: "P None 0 src U_ZERO_ERROR = (d0, stored, e0)"
    by (cases "P None 0 src U_ZERO_ERROR") auto
  define k where "k = measure_pass P src"
  have k: "(case stored of None \<Rightarrow> 0 | Some n \<Rightarrow> n) = k"
    unfolding k_def measure_pass_def m by (simp split: option.splits)
  have kpos: "0 < k" using n k_def by simp
  have len: "int (length (map (uninit h) [0..<nat (k + 1)])) = k + 1"
    using kpos by simp
  obtain out l2 e2 where s:
    "P (Some (map (uninit h) [0..<nat (k + 1)])) (k + 1) src U_ZERO_ERROR = (out, l2, e2)"
    by (cases "P (Some (map (uninit h) [0..<nat (k + 1)])) (k + 1) src U_ZERO_ERROR") auto
  have sp: "second_pass P (map (uninit h) [0..<nat (k + 1)]) src = (out, U_FAILURE e2)"
    unfolding second_pass_def len s by simp
  have own: "UCharBuffer_owned k h =
    Inr (\<lparr>m_owned = True, m_data = heap_block (next_block h), m_capacity = k + 1\<rparr>,
         heap_with_buffer (map (uninit h) [0..<nat (k + 1)]) h)"
    using kpos a by (intro UCharBuffer_owned_ok) (simp_all add: k_def)
  show ?thesis
    unfolding measure_allocate_transcode_def m k_def[symmetric] sp
    using kpos
    by (simp add: k own Let_def heap_load_def heap_store_def data_def capacity_def s
        UCharBuffer_dtor_def UCharBuffer_move_def delete_UChar_array_def
        heap_with_buffer_def heap_after_release_def)
qed

lemma holder_abs_null: "holder_abs h UCharBuffer_null = Some Empty_singleton"
  by (simp add: holder_abs_def)

lemma holder_abs_owned:
  "holder_abs (heap_with_buffer us h) \<lparr>m_owned = True, m_data = heap_block (next_block h), m_capacity = c\<rparr>
     = Some (Owned_buffer c us)"
  by (simp add: holder_abs_def heap_with_buffer_def UCharBuffer_null_def)

lemma measure_allocate_transcode_refines:
  assumes "0 \<le> measure_pass P src"
    and a: "measure_pass P src = 0 \<or> allocates h (measure_pass P src)"
  shows "\<exists>b h'. measure_allocate_transcode P src h = Inr (b, h')
           \<and> holder_abs h' b = Some (raw_buffer_of P (uninit h) src)"
proof (cases "measure_pass P src = 0")
  case True
  then show ?thesis
    by (simp add: measure_allocate_transcode_zero raw_buffer_of_def holder_abs_null)
next
  case False
  with assms have pos: "0 < measure_pass P src" and al: "allocates h (measure_pass P src)"
    by simp_all
  show ?thesis
    unfolding measure_allocate_transcode_pos[OF pos al]
    using False
    by (auto simp: raw_buffer_of_def Let_def holder_abs_null holder_abs_owned split: prod.splits)
qed

lemma c_string_nul: "c_string [0] = Some []"
  by (simp add: c_string_def)

lemma holder_string_null: "holder_string h um UCharBuffer_null = Some []"
  by (simp add: holder_string_def load_def UCharBuffer_null_def c_string_nul)

lemma holder_string_owned:
  assumes "n < length us" "us ! n = 0"
  shows "holder_string (heap_with_buffer us h) um
           \<lparr>m_owned = True, m_data = heap_block (next_block h), m_capacity = c\<rparr> \<noteq> None"
proof -
  have "0 \<in> set us" using assms by (metis nth_mem)
  then show ?thesis
    by (simp add: holder_string_def load_def heap_with_buffer_def c_string_def)
qed

lemma icu_transformD:
  assumes "icu_transform P" "0 \<in> set src" "P None 0 src U_ZERO_ERROR = (d0, Some n, e0)"
  shows "0 \<le> n"
    and "hd src = 0 \<Longrightarrow> n = 0"
    and "int (length buffer) = n + 1 \<Longrightarrow> P (Some buffer) (n + 1) src U_ZERO_ERROR = (out, l, err)
           \<Longrightarrow> \<not> U_FAILURE err \<Longrightarrow> length out = length buffer \<and> out ! nat n = 0"
proof -
  have *: "case P None 0 src U_ZERO_ERROR of
           (_, None, _) \<Rightarrow> True
         | (_, Some n, _) \<Rightarrow>
             0 \<le> n \<and> (hd src = 0 \<longrightarrow> n = 0) \<and>
             (\<forall>buffer. int (length buffer) = n + 1 \<longrightarrow>
                (case P (Some buffer) (n + 1) src U_ZERO_ERROR of
                   (out, _, err) \<Rightarrow>
                     U_FAILURE err \<or> (length out = length buffer \<and> out ! nat n = 0)))"
    by (rule assms(1)[unfolded icu_transform_def, rule_format, OF assms(2)])
  from * show "0 \<le> n" by (simp add: assms(3))
  from * show "hd src = 0 \<Longrightarrow> n = 0" by (simp add: assms(3))
  from * have "\<forall>buffer. int (length buffer) = n + 1 \<longrightarrow>
                (case P (Some buffer) (n + 1) src U_ZERO_ERROR of
                   (out, _, err) \<Rightarrow>
                     U_FAILURE err \<or> (length out = length buffer \<and> out ! nat n = 0))"
    by (simp add: assms(3))
  then show "int (length buffer) = n + 1 \<Longrightarrow> P (Some buffer) (n + 1) src U_ZERO_ERROR = (out, l, err)
           \<Longrightarrow> \<not> U_FAILURE err \<Longrightarrow> length out = length buffer \<and> out ! nat n = 0"
    by fastforce
qed

lemma measure_allocate_transcode_terminated:
  fixes P :: "'a::len word strFrom"
  assumes P: "icu_transform P" and src: "0 \<in> set src"
    and a: "measure_pass P src = 0 \<or> allocates h (measure_pass P src)"
  shows "\<exists>b h'. measure_allocate_transcode P src h = Inr (b, h')
           \<and> holder_string h' um b \<noteq> None
           \<and> (conversion_failed P (uninit h) src
                \<longrightarrow> b = UCharBuffer_null \<and> holder_string h' um b = Some [])"
proof -
  obtain d0 stored e0 where m: "P None 0 src U_ZERO_ERROR = (d0, stored, e0)"
    by (cases "P None 0 src U_ZERO_ERROR") auto
  show ?thesis
  proof (cases stored)
    case None
    then have "measure_pass P src = 0" by (simp add: measure_pass_def m)
    then show ?thesis
      by (simp add: measure_allocate_transcode_zero holder_string_null)
  next
    case (Some n)
    then have mp: "measure_pass P src = n" by (simp add: measure_pass_def m)
    note m' = m[unfolded Some]
    have n0: "0 \<le> n" by (rule icu_transformD(1)[OF P src m'])
    show ?thesis
    proof (cases "n = 0")
      case True
      then show ?thesis
        using mp by (simp add: measure_allocate_transcode_zero holder_string_null
            conversion_failed_def m Some)
    next
      case False
      with n0 have pos: "0 < measure_pass P src" using mp by simp
      with a have al: "allocates h (measure_pass P src)" by simp
      let ?buffer = "map (uninit h) [0..<nat (n + 1)]"
      have len: "int (length ?buffer) = n + 1" using n0 by simp
      obtain out l2 e2 where s: "P (Some ?buffer) (n + 1) src U_ZERO_ERROR = (out, l2, e2)"
        by (cases "P (Some ?buffer) (n + 1) src U_ZERO_ERROR") auto
      have sp: "second_pass P ?buffer src = (out, U_FAILURE e2)"
        unfolding second_pass_def len s by simp
      have cf: "conversion_failed P (uninit h) src = U_FAILURE e2"
        using False by (simp add: conversion_failed_def m Some sp)
      show ?thesis
      proof (cases "U_FAILURE e2")
        case True
        then show ?thesis
          unfolding measure_allocate_transcode_pos[OF pos al] mp sp
          by (simp add: holder_string_null)
      next
        case nf: False
        from icu_transformD(3)[OF P src m' len s nf]
        have "length out = length ?buffer" "out ! nat n = 0"
          by auto
        then have "nat n < length out" "out ! nat n = 0" using n0 by auto
        then have "holder_string (heap_with_buffer out h) um
           \<lparr>m_owned = True, m_data = heap_block (next_block h), m_capacity = n + 1\<rparr> \<noteq> None"
          by (rule holder_string_owned)
        then show ?thesis
          unfolding measure_allocate_transcode_pos[OF pos al] mp sp cf
          using nf by simp
      qed
    qed
  qed
qed

lemma lenient_units_empty: "0 \<in> set src \<Longrightarrow> hd src = 0 \<Longrightarrow> lenient_units src = []"
  by (cases src) auto

lemma utf32_units_empty: "0 \<in> set src \<Longrightarrow> hd src = 0 \<Longrightarrow> utf32_units src = ([], True)"
  by (cases src) auto

lemma length_overwrite: "length (overwrite us dest) = length dest"
  by (simp add: overwrite_def)

lemma u_terminateUChars_room:
  assumes "int (length dest) = n + 1" "0 \<le> n"
  shows "\<exists>out. u_terminateUChars dest (n + 1) n U_ZERO_ERROR = (out, U_ZERO_ERROR)
           \<and> length out = length dest \<and> out ! nat n = 0"
  using assms
  by (simp add: u_terminateUChars_def U_FAILURE_def U_ZERO_ERROR_def
      U_STRING_NOT_TERMINATED_WARNING_def)

lemma u_strFromUTF8Lenient_measure:
  "\<exists>e. u_strFromUTF8Lenient None 0 src U_ZERO_ERROR = ([], Some (int (length (lenient_units src))), e)"
  by (simp add: u_strFromUTF8Lenient_def u_terminateUChars_def U_FAILURE_def U_ZERO_ERROR_def
      overwrite_def Let_def)

lemma u_strFromUTF8Lenient_convert:
  assumes "int (length buffer) = int (length (lenient_units src)) + 1"
  shows "\<exists>out. u_strFromUTF8Lenient (Some buffer) (int (length (lenient_units src)) + 1) src U_ZERO_ERROR
           = (out, Some (int (length (lenient_units src))), U_ZERO_ERROR)
         \<and> length out = length buffer \<and> out ! length (lenient_units src) = 0"
proof -
  let ?us = "lenient_units src"
  let ?n = "int (length ?us)"
  let ?d = "overwrite (take (nat (?n + 1)) ?us) buffer"
  have "int (length ?d) = ?n + 1" using assms by (simp add: length_overwrite)
  from u_terminateUChars_room[OF this]
  obtain out where "u_terminateUChars ?d (?n + 1) ?n U_ZERO_ERROR = (out, U_ZERO_ERROR)"
    "length out = length ?d" "out ! nat ?n = 0" by auto
  then show ?thesis
    by (simp add: u_strFromUTF8Lenient_def U_FAILURE_def U_ZERO_ERROR_def Let_def length_overwrite)
qed

lemma icu_transform_u_strFromUTF8Lenient: "icu_transform u_strFromUTF8Lenient"
  unfolding icu_transform_def
proof (intro allI impI)
  fix src :: "8 word list"
  assume src: "0 \<in> set src"
  obtain e where m: "u_strFromUTF8Lenient None 0 src U_ZERO_ERROR
      = ([], Some (int (length (lenient_units src))), e)"
    using u_strFromUTF8Lenient_measure by blast
  have e: "hd src = 0 \<longrightarrow> int (length (lenient_units src)) = 0"
    using lenient_units_empty[OF src] by simp
  have "\<forall>buffer. int (length buffer) = int (length (lenient_units src)) + 1 \<longrightarrow>
     (case u_strFromUTF8Lenient (Some buffer) (int (length (lenient_units src)) + 1) src U_ZERO_ERROR of
        (out, _, err) \<Rightarrow> U_FAILURE err \<or> (length out = length buffer \<and> out ! nat (int (length (lenient_units src))) = 0))"
  proof (intro allI impI)
    fix buffer :: "UChar list"
    assume "int (length buffer) = int (length (lenient_units src)) + 1"
    from u_strFromUTF8Lenient_convert[OF this] show "case u_strFromUTF8Lenient (Some buffer) (int (length (lenient_units src)) + 1) src U_ZERO_ERROR of
        (out, _, err) \<Rightarrow> U_FAILURE err \<or> (length out = length buffer \<and> out ! nat (int (length (lenient_units src))) = 0)"
      by auto
  qed
  with e show "case u_strFromUTF8Lenient None 0 src U_ZERO_ERROR of
           (_, None, _) \<Rightarrow> True
         | (_, Some n, _) \<Rightarrow>
             0 \<le> n \<and> (hd src = 0 \<longrightarrow> n = 0) \<and>
             (\<forall>buffer. int (length buffer) = n + 1 \<longrightarrow>
                (case u_strFromUTF8Lenient (Some buffer) (n + 1) src U_ZERO_ERROR of
                   (out, _, err) \<Rightarrow>
                     U_FAILURE err \<or> (length out = length buffer \<and> out ! nat n = 0)))"
    unfolding m by simp
qed

lemma u_strFromUTF32_measure:
  "utf32_units src = (us, True) \<Longrightarrow>
   \<exists>e. u_strFromUTF32 None 0 src U_ZERO_ERROR = ([], Some (int (length us)), e)"
  by (simp add: u_strFromUTF32_def u_terminateUChars_def U_FAILURE_def U_ZERO_ERROR_def
      overwrite_def Let_def)

lemma u_strFromUTF32_invalid:
  "utf32_units src = (us, False) \<Longrightarrow>
   u_strFromUTF32 None 0 src U_ZERO_ERROR = ([], None, U_INVALID_CHAR_FOUND)"
  by (simp add: u_strFromUTF32_def U_FAILURE_def U_ZERO_ERROR_def overwrite_def Let_def)

lemma u_strFromUTF32_convert:
  assumes "utf32_units src = (us, True)" "int (length buffer) = int (length us) + 1"
  shows "\<exists>out. u_strFromUTF32 (Some buffer) (int (length us) + 1) src U_ZERO_ERROR
           = (out, Some (int (length us)), U_ZERO_ERROR)
         \<and> length out = length buffer \<and> out ! length us = 0"
proof -
  let ?n = "int (length us)"
  let ?d = "overwrite (take (nat (?n + 1)) us) buffer"
  have "int (length ?d) = ?n + 1" using assms by (simp add: length_overwrite)
  from u_terminateUChars_room[OF this]
  obtain out where "u_terminateUChars ?d (?n + 1) ?n U_ZERO_ERROR = (out, U_ZERO_ERROR)"
    "length out = length ?d" "out ! nat ?n = 0" by auto
  then show ?thesis
    by (simp add: u_strFromUTF32_def U_FAILURE_def U_ZERO_ERROR_def Let_def length_overwrite assms(1))
qed

lemma icu_transform_u_strFromUTF32: "icu_transform u_strFromUTF32"
  unfolding icu_transform_def
proof (intro allI impI)
  fix src :: "32 word list"
  assume src: "0 \<in> set src"
  obtain us ok where u: "utf32_units src = (us, ok)" by (cases "utf32_units src") auto
  show "case u_strFromUTF32 None 0 src U_ZERO_ERROR of
           (_, None, _) \<Rightarrow> True
         | (_, Some n, _) \<Rightarrow>
             0 \<le> n \<and> (hd src = 0 \<longrightarrow> n = 0) \<and>
             (\<forall>buffer. int (length buffer) = n + 1 \<longrightarrow>
                (case u_strFromUTF32 (Some buffer) (n + 1) src U_ZERO_ERROR of
                   (out, _, err) \<Rightarrow>
                     U_FAILURE err \<or> (length out = length buffer \<and> out ! nat n = 0)))"
  proof (cases ok)
    case False
    with u show ?thesis by (simp add: u_strFromUTF32_invalid)
  next
    case True
    with u have u': "utf32_units src = (us, True)" by simp
    obtain e where m: "u_strFromUTF32 None 0 src U_ZERO_ERROR = ([], Some (int (length us)), e)"
      using u_strFromUTF32_measure[OF u'] by blast
    have e: "hd src = 0 \<longrightarrow> int (length us) = 0"
      using utf32_units_empty[OF src] u' by auto
    have "\<forall>buffer. int (length buffer) = int (length us) + 1 \<longrightarrow>
       (case u_strFromUTF32 (Some buffer) (int (length us) + 1) src U_ZERO_ERROR of
          (out, _, err) \<Rightarrow> U_FAILURE err \<or> (length out = length buffer \<and> out ! nat (int (length us)) = 0))"
    proof (intro allI impI)
      fix buffer :: "UChar list"
      assume "int (length buffer) = int (length us) + 1"
      from u_strFromUTF32_convert[OF u' this]
      show "case u_strFromUTF32 (Some buffer) (int (length us) + 1) src U_ZERO_ERROR of
          (out, _, err) \<Rightarrow> U_FAILURE err \<or> (length out = length buffer \<and> out ! nat (int (length us)) = 0)"
        by auto
    qed
    with e show ?thesis unfolding m by simp
  qed
qed


lemma allocates_heap0: "n < INT32_MAX \<Longrightarrow> allocates heap0 n"
  by (simp add: allocates_def heap0_def)

lemma measure_A: "measure_pass u_strFromUTF8Lenient [0x41, 0] = 1"
  by (simp add: measure_pass_def u_strFromUTF8Lenient_def Let_def U_FAILURE_def U_ZERO_ERROR_def
    u_terminateUChars_def overwrite_def)



lemma map_ucast_id: "map ucast ws = (ws :: 'a::len word list)"
  by (induction ws) simp_all

text \<open>
  Claim C7. \<^verbatim>\<open>to_icu_raw\<close> on a wide-character source splits on the width of
  \<^verbatim>\<open>wchar_t\<close>. With 16 bits the result is \<^verbatim>\<open>non_owned\<close> of the source pointer itself:
  not owned, the same address, and the heap is untouched. With 32 bits it is the
  measure, allocate, transcode and fall-back-to-empty sequence of Claim C2, run with
  the UTF-32 transform on the wide characters at the source.
\<close>

theorem to_icu_raw_wchar_t_by_width:
  fixes wm16 :: "nat \<Rightarrow> 16 word list option" and wm32 :: "nat \<Rightarrow> 32 word list option"
  assumes "wide_load wm32 str = Some ws" and "0 \<le> measure_pass P ws"
  shows "to_icu_raw_wchar_t P wm16 str16 h = Inr (UCharBuffer_non_owned str16, h)
       \<and> m_data (UCharBuffer_non_owned str16) = str16
       \<and> \<not> m_owned (UCharBuffer_non_owned str16)
       \<and> (measure_pass P ws = 0 \<longrightarrow> to_icu_raw_wchar_t P wm32 str h = Inr (UCharBuffer_null, h))
       \<and> (measure_pass P ws \<noteq> 0 \<longrightarrow>
            (\<forall>e. UCharBuffer_owned (measure_pass P ws) h = Inl e
                 \<longrightarrow> to_icu_raw_wchar_t P wm32 str h = Inl e))
       \<and> (measure_pass P ws \<noteq> 0 \<and> allocates h (measure_pass P ws) \<longrightarrow>
            (case second_pass P (map (uninit h) [0..<nat (measure_pass P ws + 1)]) ws of
               (out, failed) \<Rightarrow>
                 to_icu_raw_wchar_t P wm32 str h =
                   (if failed then Inr (UCharBuffer_null, heap_after_release h)
                    else Inr (\<lparr>m_owned = True, m_data = heap_block (next_block h),
                               m_capacity = measure_pass P ws + 1\<rparr>, heap_with_buffer out h))))
       \<and> (measure_pass P ws = 0 \<or> allocates h (measure_pass P ws) \<longrightarrow>
            (\<exists>b h'. to_icu_raw_wchar_t P wm32 str h = Inr (b, h')
                 \<and> holder_abs h' b = Some (raw_buffer_of P (uninit h) ws)))"
proof -
  have body: "to_icu_raw_wchar_t P wm32 str h = measure_allocate_transcode P ws h"
    by (simp add: to_icu_raw_wchar_t_body assms(1) map_ucast_id)
  show ?thesis
  proof (intro conjI impI allI)
    show "to_icu_raw_wchar_t P wm16 str16 h = Inr (UCharBuffer_non_owned str16, h)"
      by (rule to_icu_raw_wchar_t_alias)
    show "m_data (UCharBuffer_non_owned str16) = str16"
      by (simp add: UCharBuffer_non_owned_def)
    show "\<not> m_owned (UCharBuffer_non_owned str16)"
      by (simp add: UCharBuffer_non_owned_def)
  next
    assume "measure_pass P ws = 0"
    then show "to_icu_raw_wchar_t P wm32 str h = Inr (UCharBuffer_null, h)"
      by (simp add: body measure_allocate_transcode_zero)
  next
    fix e
    assume "measure_pass P ws \<noteq> 0" and "UCharBuffer_owned (measure_pass P ws) h = Inl e"
    then show "to_icu_raw_wchar_t P wm32 str h = Inl e"
      unfolding body by (rule measure_allocate_transcode_throws)
  next
    assume "measure_pass P ws \<noteq> 0 \<and> allocates h (measure_pass P ws)"
    with assms(2) have "0 < measure_pass P ws" and "allocates h (measure_pass P ws)"
      by simp_all
    then show "case second_pass P (map (uninit h) [0..<nat (measure_pass P ws + 1)]) ws of
               (out, failed) \<Rightarrow>
                 to_icu_raw_wchar_t P wm32 str h =
                   (if failed then Inr (UCharBuffer_null, heap_after_release h)
                    else Inr (\<lparr>m_owned = True, m_data = heap_block (next_block h),
                               m_capacity = measure_pass P ws + 1\<rparr>, heap_with_buffer out h))"
      by (simp add: body measure_allocate_transcode_pos split: prod.splits)
  next
    assume "measure_pass P ws = 0 \<or> allocates h (measure_pass P ws)"
    then show "\<exists>b h'. to_icu_raw_wchar_t P wm32 str h = Inr (b, h')
                 \<and> holder_abs h' b = Some (raw_buffer_of P (uninit h) ws)"
      unfolding body by (rule measure_allocate_transcode_refines[OF assms(2)])
  qed
qed

lemma utf32_units_emoji: "utf32_units [0x1F600, 0] = ([0xD83D, 0xDE00], True)"
  by (simp add: U16_LEAD_def U16_TRAIL_def)

lemma measure_emoji: "measure_pass u_strFromUTF32 [0x1F600, 0] = 2"
  by (simp add: measure_pass_def u_strFromUTF32_def Let_def U_FAILURE_def U_ZERO_ERROR_def
    u_terminateUChars_def overwrite_def utf32_units_emoji del: utf32_units.simps)

lemma second_emoji:
  "second_pass u_strFromUTF32 [x, y, z] [0x1F600, 0] = ([0xD83D, 0xDE00, 0], False)"
  by (simp add: second_pass_def u_strFromUTF32_def Let_def U_FAILURE_def U_ZERO_ERROR_def
    u_terminateUChars_def overwrite_def U_STRING_NOT_TERMINATED_WARNING_def utf32_units_emoji
    del: utf32_units.simps)

theorem to_icu_raw_wchar_t_by_width_witness:
  "wide_load [7 \<mapsto> [0x1F600, 0 :: 32 word]] (caller_storage 7) = Some [0x1F600, 0]
   \<and> 0 \<le> measure_pass u_strFromUTF32 [0x1F600, 0]
   \<and> allocates heap0 (measure_pass u_strFromUTF32 [0x1F600, 0])
   \<and> to_icu_raw_wchar_t u_strFromUTF32 [7 \<mapsto> [0x41, 0 :: 16 word]] (caller_storage 7) heap0
       = Inr (\<lparr>m_owned = False, m_data = caller_storage 7, m_capacity = - 1\<rparr>, heap0)
   \<and> to_icu_raw_wchar_t u_strFromUTF32 [7 \<mapsto> [0x1F600, 0 :: 32 word]] (caller_storage 7) heap0
       = Inr (\<lparr>m_owned = True, m_data = heap_block 0, m_capacity = 3\<rparr>,
              heap_with_buffer [0xD83D, 0xDE00, 0] heap0)
   \<and> to_icu_raw_wchar_t u_strFromUTF32 [7 \<mapsto> [0x1F600, 0 :: 32 word]] (caller_storage 7)
         heap_exhausted
       = Inl bad_alloc"
proof -
  have a2: "allocates heap0 2" by (simp add: allocates_heap0 INT32_MAX_def)
  have ex: "UCharBuffer_owned 2 heap_exhausted = Inl bad_alloc"
    by (simp add: UCharBuffer_owned_def new_UChar_array_def heap_exhausted_def INT32_MAX_def)
  have thrown: "to_icu_raw_wchar_t u_strFromUTF32 [7 \<mapsto> [0x1F600, 0 :: 32 word]]
                  (caller_storage 7) heap_exhausted = Inl bad_alloc"
    using to_icu_raw_wchar_t_by_width[of "[7 \<mapsto> [0x1F600, 0 :: 32 word]]" "caller_storage 7"
        "[0x1F600, 0]" u_strFromUTF32 "[7 \<mapsto> [0x41, 0 :: 16 word]]" "caller_storage 7"
        heap_exhausted] ex
    by (simp add: wide_load_def measure_emoji)
  show ?thesis
    using to_icu_raw_wchar_t_by_width[of "[7 \<mapsto> [0x1F600, 0 :: 32 word]]" "caller_storage 7"
        "[0x1F600, 0]" u_strFromUTF32 "[7 \<mapsto> [0x41, 0 :: 16 word]]" "caller_storage 7" heap0]
      a2 thrown
    by (simp add: wide_load_def measure_emoji heap0_def second_emoji UCharBuffer_non_owned_def
        numeral_3_eq_3)
qed

text \<open>
  Claim C1, as amended. For transforms that behave as ICU's do (\<open>icu_transform\<close>), for
  every NUL-terminated UTF-8 source and every NUL-terminated wide source, malformed and
  empty ones included, whose measured UTF-16 length is below \<^verbatim>\<open>INT32_MAX\<close>:
  \<^verbatim>\<open>to_icu_raw\<close> raises nothing but the \<^verbatim>\<open>std::bad_alloc\<close> of its one allocation, and
  that only when the measured length is not zero and the free store cannot supply the
  buffer. In every other case, and always on 16-bit \<^verbatim>\<open>wchar_t\<close>, it returns a holder
  whose data is a NUL-terminated array; and when the conversion fails, the holder is the
  empty singleton, which reads as the empty string.
\<close>

theorem to_icu_raw_holder_or_bad_alloc:
  fixes P8 :: "8 word strFrom" and P32 :: "32 word strFrom"
    and wm16 :: "nat \<Rightarrow> 16 word list option" and wm32 :: "nat \<Rightarrow> 32 word list option"
  assumes "icu_transform P8" and "icu_transform P32"
    and "0 \<in> set str"
    and "wm16 a16 = Some ws16" and "0 \<in> set ws16"
    and "wm32 a32 = Some ws32" and "0 \<in> set ws32"
    and "measure_pass P8 str < INT32_MAX" and "measure_pass P32 ws32 < INT32_MAX"
  shows "(if measure_pass P8 str \<noteq> 0 \<and> \<not> supplies h (nat (measure_pass P8 str + 1))
          then to_icu_raw_char P8 str h = Inl bad_alloc
          else (\<exists>b h'. to_icu_raw_char P8 str h = Inr (b, h')
                  \<and> holder_string h' um b \<noteq> None
                  \<and> (conversion_failed P8 (uninit h) str
                       \<longrightarrow> b = UCharBuffer_null \<and> holder_string h' um b = Some [])))
       \<and> (\<exists>b. to_icu_raw_wchar_t P32 wm16 (caller_storage a16) h = Inr (b, h)
            \<and> holder_string h (as_UChars wm16) b \<noteq> None)
       \<and> (if measure_pass P32 ws32 \<noteq> 0 \<and> \<not> supplies h (nat (measure_pass P32 ws32 + 1))
          then to_icu_raw_wchar_t P32 wm32 (caller_storage a32) h = Inl bad_alloc
          else (\<exists>b h'. to_icu_raw_wchar_t P32 wm32 (caller_storage a32) h = Inr (b, h')
                  \<and> holder_string h' um b \<noteq> None
                  \<and> (conversion_failed P32 (uninit h) ws32
                       \<longrightarrow> b = UCharBuffer_null \<and> holder_string h' um b = Some [])))"
proof -
  have generic:
    "if measure_pass P src \<noteq> 0 \<and> \<not> supplies h (nat (measure_pass P src + 1))
     then measure_allocate_transcode P src h = Inl bad_alloc
     else (\<exists>b h'. measure_allocate_transcode P src h = Inr (b, h')
             \<and> holder_string h' um b \<noteq> None
             \<and> (conversion_failed P (uninit h) src
                  \<longrightarrow> b = UCharBuffer_null \<and> holder_string h' um b = Some []))"
    if P: "icu_transform P" and src: "0 \<in> set src" and lt: "measure_pass P src < INT32_MAX"
    for P :: "'a::len word strFrom" and src
  proof (cases "measure_pass P src \<noteq> 0 \<and> \<not> supplies h (nat (measure_pass P src + 1))")
    case True
    obtain d0 stored e0 where m: "P None 0 src U_ZERO_ERROR = (d0, stored, e0)"
      by (cases "P None 0 src U_ZERO_ERROR") auto
    from True m obtain n where st: "stored = Some n" and mp: "measure_pass P src = n"
      by (cases stored) (auto simp: measure_pass_def)
    have "0 \<le> n" by (rule icu_transformD(1)[OF P src m[unfolded st]])
    then have "UCharBuffer_owned (measure_pass P src) h = Inl bad_alloc"
      using True lt by (intro UCharBuffer_owned_exhausted) (simp_all add: mp)
    with True have "measure_allocate_transcode P src h = Inl bad_alloc"
      by (intro measure_allocate_transcode_throws) simp_all
    then show ?thesis unfolding if_P[OF True] .
  next
    case False
    then have "measure_pass P src = 0 \<or> allocates h (measure_pass P src)"
      using lt by (auto simp: allocates_def)
    then show ?thesis
      unfolding if_not_P[OF False]
      by (rule measure_allocate_transcode_terminated[OF P src])
  qed
  have w16: "holder_string h (as_UChars wm16) (UCharBuffer_non_owned (caller_storage a16)) \<noteq> None"
    using assms(4) assms(5)
    by (simp add: holder_string_def load_def UCharBuffer_non_owned_def as_UChars_def
        map_ucast_id c_string_def)
  have w32: "to_icu_raw_wchar_t P32 wm32 (caller_storage a32) h
             = measure_allocate_transcode P32 ws32 h"
    by (simp add: to_icu_raw_wchar_t_body wide_load_def assms(6) map_ucast_id)
  show ?thesis
    unfolding to_icu_raw_char_body w32
    using generic[OF assms(1) assms(3) assms(8)] generic[OF assms(2) assms(7) assms(9)] w16
    by (simp add: to_icu_raw_wchar_t_alias)
qed

lemma measure_lone_trail: "measure_pass u_strFromUTF8Lenient [0x80, 0] = 1"
  by (simp add: measure_pass_def u_strFromUTF8Lenient_def Let_def U_FAILURE_def U_ZERO_ERROR_def
      u_terminateUChars_def overwrite_def)

lemma second_lone_trail:
  "second_pass u_strFromUTF8Lenient [x, y] [0x80, 0] = ([0x80, 0], False)"
  by (simp add: second_pass_def u_strFromUTF8Lenient_def Let_def U_FAILURE_def U_ZERO_ERROR_def
      u_terminateUChars_def overwrite_def U_STRING_NOT_TERMINATED_WARNING_def)

lemma measure_lone_surrogate:
  "u_strFromUTF32 None 0 [0xD800, 0] U_ZERO_ERROR = ([], None, U_INVALID_CHAR_FOUND)"
  by (simp add: u_strFromUTF32_def Let_def U_FAILURE_def U_ZERO_ERROR_def overwrite_def)

text \<open>
  The lone trail byte \<^verbatim>\<open>0x80\<close> converts to an owned buffer when the store supplies it,
  and \<^verbatim>\<open>std::bad_alloc\<close> leaves the function when it does not; the lone surrogate
  \<^verbatim>\<open>0xD800\<close> is aliased on 16-bit \<^verbatim>\<open>wchar_t\<close> and gives the empty singleton on 32-bit
  \<^verbatim>\<open>wchar_t\<close>, where its conversion fails, whatever the store supplies.
\<close>

theorem to_icu_raw_holder_or_bad_alloc_witness:
  "icu_transform u_strFromUTF8Lenient \<and> icu_transform u_strFromUTF32
   \<and> measure_pass u_strFromUTF8Lenient [0x80, 0] < INT32_MAX
   \<and> measure_pass u_strFromUTF32 [0xD800, 0] < INT32_MAX
   \<and> to_icu_raw_char u_strFromUTF8Lenient [0x80, 0] heap0
       = Inr (\<lparr>m_owned = True, m_data = heap_block 0, m_capacity = 2\<rparr>,
              heap_with_buffer [0x80, 0] heap0)
   \<and> holder_string (heap_with_buffer [0x80, 0] heap0) Map.empty
        \<lparr>m_owned = True, m_data = heap_block 0, m_capacity = 2\<rparr> = Some [0x80]
   \<and> to_icu_raw_char u_strFromUTF8Lenient [0x80, 0] heap_exhausted = Inl bad_alloc
   \<and> to_icu_raw_wchar_t u_strFromUTF32 [3 \<mapsto> [0xD800, 0 :: 16 word]] (caller_storage 3)
         heap_exhausted
       = Inr (UCharBuffer_non_owned (caller_storage 3), heap_exhausted)
   \<and> conversion_failed u_strFromUTF32 (uninit heap_exhausted) [0xD800, 0]
   \<and> to_icu_raw_wchar_t u_strFromUTF32 [3 \<mapsto> [0xD800, 0 :: 32 word]] (caller_storage 3)
         heap_exhausted
       = Inr (UCharBuffer_null, heap_exhausted)"
proof -
  have m: "measure_pass u_strFromUTF32 [0xD800, 0] = 0"
    by (simp add: measure_pass_def measure_lone_surrogate)
  have lt: "measure_pass u_strFromUTF8Lenient [0x80, 0] < INT32_MAX"
    "measure_pass u_strFromUTF32 [0xD800, 0] < INT32_MAX"
    by (simp_all add: m measure_lone_trail INT32_MAX_def)
  have w32: "to_icu_raw_wchar_t u_strFromUTF32 [3 \<mapsto> [0xD800, 0 :: 32 word]] (caller_storage 3)
               heap_exhausted = Inr (UCharBuffer_null, heap_exhausted)"
    by (simp add: to_icu_raw_wchar_t_body wide_load_def measure_allocate_transcode_zero m)
  have c8: "to_icu_raw_char u_strFromUTF8Lenient [0x80, 0] heap0
       = Inr (\<lparr>m_owned = True, m_data = heap_block 0, m_capacity = 2\<rparr>,
              heap_with_buffer [0x80, 0] heap0)"
  proof -
    have pos: "0 < measure_pass u_strFromUTF8Lenient [0x80, 0]"
      and al: "allocates heap0 (measure_pass u_strFromUTF8Lenient [0x80, 0])"
      by (simp_all add: measure_lone_trail allocates_heap0 INT32_MAX_def)
    show ?thesis
      unfolding to_icu_raw_char_body measure_allocate_transcode_pos[OF pos al]
      by (simp add: measure_lone_trail heap0_def second_lone_trail numeral_2_eq_2)
  qed
  have hs: "holder_string (heap_with_buffer [0x80, 0] heap0) Map.empty
        \<lparr>m_owned = True, m_data = heap_block 0, m_capacity = 2\<rparr> = Some [0x80]"
    by (simp add: holder_string_def load_def heap_with_buffer_def heap0_def c_string_def)
  have cf: "conversion_failed u_strFromUTF32 (uninit heap_exhausted) [0xD800, 0]"
    by (simp add: conversion_failed_def measure_lone_surrogate)
  have ex: "\<not> supplies heap_exhausted (nat (measure_pass u_strFromUTF8Lenient [0x80, 0] + 1))"
    by (simp add: heap_exhausted_def)
  have thrown: "to_icu_raw_char u_strFromUTF8Lenient [0x80, 0] heap_exhausted = Inl bad_alloc"
    using to_icu_raw_holder_or_bad_alloc[OF icu_transform_u_strFromUTF8Lenient
        icu_transform_u_strFromUTF32, of "[0x80, 0]" "[3 \<mapsto> [0xD800, 0 :: 16 word]]" 3
        "[0xD800, 0]" "[3 \<mapsto> [0xD800, 0 :: 32 word]]" 3 "[0xD800, 0]" heap_exhausted Map.empty]
      lt ex
    by (simp add: measure_lone_trail)
  show ?thesis
    using icu_transform_u_strFromUTF8Lenient icu_transform_u_strFromUTF32 lt w32 c8 hs cf thrown
    by (simp add: to_icu_raw_wchar_t_alias)
qed

lemma lenient_units_ascii: "lenient_units (replicate n 0x41 @ [0]) = replicate n 0x41"
  by (induction n) simp_all

lemma measure_ascii:
  "measure_pass u_strFromUTF8Lenient (replicate n 0x41 @ [0]) = int n"
  by (simp add: measure_pass_def u_strFromUTF8Lenient_def Let_def U_FAILURE_def U_ZERO_ERROR_def
      u_terminateUChars_def overwrite_def lenient_units_ascii del: lenient_units.simps
      split: prod.splits)

text \<open>
  Claim C1 as it was stated does not hold: the conversion of the letter A throws
  \<^verbatim>\<open>std::bad_alloc\<close> when the free store is exhausted, and the conversion of
  \<^verbatim>\<open>INT32_MAX\<close> letters A throws \<^verbatim>\<open>std::bad_array_new_length\<close>, because
  \<^verbatim>\<open>length + 1\<close> overflows in \<^verbatim>\<open>owned\<close>.
\<close>

theorem to_icu_raw_throws:
  "to_icu_raw_char u_strFromUTF8Lenient [0x41, 0] heap_exhausted = Inl bad_alloc
   \<and> to_icu_raw_char u_strFromUTF8Lenient (replicate (nat INT32_MAX) 0x41 @ [0]) heap0
       = Inl bad_array_new_length"
proof -
  have "UCharBuffer_owned 1 heap_exhausted = Inl bad_alloc"
    by (simp add: UCharBuffer_owned_def new_UChar_array_def heap_exhausted_def INT32_MAX_def)
  then have a: "to_icu_raw_char u_strFromUTF8Lenient [0x41, 0] heap_exhausted = Inl bad_alloc"
    unfolding to_icu_raw_char_body
    by (intro measure_allocate_transcode_throws) (simp_all add: measure_A)
  have m: "measure_pass u_strFromUTF8Lenient (replicate (nat INT32_MAX) 0x41 @ [0]) = INT32_MAX"
    unfolding measure_ascii by (simp add: INT32_MAX_def)
  have b: "to_icu_raw_char u_strFromUTF8Lenient (replicate (nat INT32_MAX) 0x41 @ [0]) heap0
       = Inl bad_array_new_length"
    unfolding to_icu_raw_char_body
    by (rule measure_allocate_transcode_throws)
       (simp_all add: m UCharBuffer_owned_overflow, simp add: INT32_MAX_def)
  from a b show ?thesis by simp
qed

section \<open>The empty string\<close>

text \<open>
  Where \<^verbatim>\<open>to_icu_raw\<close> converts (a UTF-8 source, or a wide source with 32-bit
  \<^verbatim>\<open>wchar_t\<close>), the empty string gives \<^verbatim>\<open>null()\<close>: the data is the static array that
  holds a single NUL, and \<^verbatim>\<open>capacity()\<close> is 0.
\<close>

lemma to_icu_raw_empty_converted:
  fixes P8 :: "8 word strFrom" and P32 :: "32 word strFrom"
    and wm32 :: "nat \<Rightarrow> 32 word list option"
  assumes "icu_transform P8" and "icu_transform P32" and "wm32 a = Some (0 # rest32)"
  shows "to_icu_raw_char P8 (0 # rest) h = Inr (UCharBuffer_null, h)"
    and "to_icu_raw_wchar_t P32 wm32 (caller_storage a) h = Inr (UCharBuffer_null, h)"
    and "capacity UCharBuffer_null = 0"
    and "load h um (m_data UCharBuffer_null) = Some [0]"
proof -
  have zero: "measure_pass P (0 # xs) = 0" if "icu_transform P" for P :: "'a::len word strFrom" and xs
  proof -
    obtain d0 stored e0 where m: "P None 0 (0 # xs) U_ZERO_ERROR = (d0, stored, e0)"
      by (cases "P None 0 (0 # xs) U_ZERO_ERROR") auto
    show ?thesis
    proof (cases stored)
      case None
      then show ?thesis by (simp add: measure_pass_def m)
    next
      case (Some n)
      have "n = 0"
        by (rule icu_transformD(2)[OF that _ m[unfolded Some]]) simp_all
      then show ?thesis by (simp add: measure_pass_def m Some)
    qed
  qed
  show "to_icu_raw_char P8 (0 # rest) h = Inr (UCharBuffer_null, h)"
    by (simp add: to_icu_raw_char_body measure_allocate_transcode_zero zero[OF assms(1)])
  show "to_icu_raw_wchar_t P32 wm32 (caller_storage a) h = Inr (UCharBuffer_null, h)"
    by (simp add: to_icu_raw_wchar_t_body wide_load_def assms(3) map_ucast_id
        measure_allocate_transcode_zero zero[OF assms(2)])
  show "capacity UCharBuffer_null = 0"
    by (simp add: capacity_def UCharBuffer_null_def)
  show "load h um (m_data UCharBuffer_null) = Some [0]"
    by (simp add: load_def UCharBuffer_null_def)
qed

text \<open>
  Claim C4. With 16-bit \<^verbatim>\<open>wchar_t\<close>, \<^verbatim>\<open>to_icu_raw\<close> of the empty wide string (a single
  NUL at address 7) is \<^verbatim>\<open>non_owned\<close> of the source pointer: it reads as the empty
  string, but \<^verbatim>\<open>capacity()\<close> is \<open>-1\<close>, not 0.
\<close>

theorem to_icu_raw_empty_wide16:
  "to_icu_raw_wchar_t u_strFromUTF32 [7 \<mapsto> [0 :: 16 word]] (caller_storage 7) heap0
     = Inr (UCharBuffer_non_owned (caller_storage 7), heap0)
   \<and> capacity (UCharBuffer_non_owned (caller_storage 7)) = - 1
   \<and> holder_string heap0 (as_UChars [7 \<mapsto> [0 :: 16 word]])
        (UCharBuffer_non_owned (caller_storage 7)) = Some []"
  by (simp add: to_icu_raw_wchar_t_alias capacity_def UCharBuffer_non_owned_def holder_string_def
      load_def as_UChars_def c_string_def)

section \<open>Properties of the copying conversions\<close>

lemma divmod_nat_eq:
  fixes x :: nat
  assumes "x = q * b + r" "r < b"
  shows "x div b = q" and "x mod b = r"
  using assms by simp_all

lemma utf8_trails_1:
  "utf8_is_trail b \<Longrightarrow> utf8_trails 1 c (b # bs) = (code_point (c * 64 + b mod 64), 1)"
  by simp

lemma utf8_trails_2:
  "utf8_is_trail b1 \<Longrightarrow> utf8_is_trail b2 \<Longrightarrow>
   utf8_trails 2 c (b1 # b2 # bs) = (code_point ((c * 64 + b1 mod 64) * 64 + b2 mod 64), 2)"
  by (simp add: numeral_2_eq_2)

lemma utf8_trails_3:
  "utf8_is_trail b1 \<Longrightarrow> utf8_is_trail b2 \<Longrightarrow> utf8_is_trail b3 \<Longrightarrow>
   utf8_trails 3 c (b1 # b2 # b3 # bs)
     = (code_point (((c * 64 + b1 mod 64) * 64 + b2 mod 64) * 64 + b3 mod 64), 3)"
  by (simp add: numeral_3_eq_3)

lemma utf8_trail_byte: "l < 64 \<Longrightarrow> utf8_is_trail (128 + l) \<and> (128 + l) mod 64 = l"
proof -
  assume l: "l < 64"
  have "(128 + l) mod 64 = l"
    by (rule divmod_nat_eq(2)[where q = 2]) (use l in simp_all)
  then show ?thesis using l by (simp add: utf8_is_trail_def)
qed

lemma utf8_decode_one: "c < 128 \<Longrightarrow> utf8_decode c rest = (code_point c, 0)"
  by (simp add: utf8_decode_def utf8_trail_length_def)

lemma utf8_decode_two:
  assumes "2 \<le> h" "h < 32" "l < 64"
  shows "utf8_decode (192 + h) ((128 + l) # rest) = (code_point (h * 64 + l), 1)"
proof -
  have k: "utf8_trail_length (192 + h) = Some 1"
    using assms by (simp add: utf8_trail_length_def)
  have lead: "(192 + h) mod 2 ^ (6 - 1) = h"
    by (rule divmod_nat_eq(2)[where q = 6]) (use assms in simp_all)
  have tr: "utf8_trails 1 h ((128 + l) # rest) = (code_point (h * 64 + l), 1)"
    using utf8_trail_byte[OF assms(3)] by (simp only: utf8_trails_1)
  have c: "128 \<le> h * 64 + l" "h * 64 + l \<le> 2047" using assms by simp_all
  then have v: "is_valid_codepoint (h * 64 + l)" "utf8_width (h * 64 + l) = 1 + 1"
    by (simp_all add: is_valid_codepoint_def utf8_width_def)
  show ?thesis
    by (simp only: utf8_decode_def k option.case lead tr v prod.case decoded.case)
       simp
qed

lemma utf8_decode_three:
  assumes "h < 16" "m < 64" "l < 64" "2048 \<le> h * 4096 + m * 64 + l"
    "is_valid_codepoint (h * 4096 + m * 64 + l)"
  shows "utf8_decode (224 + h) ((128 + m) # (128 + l) # rest)
         = (code_point (h * 4096 + m * 64 + l), 2)"
proof -
  have k: "utf8_trail_length (224 + h) = Some 2"
    using assms by (simp add: utf8_trail_length_def)
  have lead: "(224 + h) mod 2 ^ (6 - 2) = h"
    by (rule divmod_nat_eq(2)[where q = 14]) (use assms in simp_all)
  have acc: "(h * 64 + m) * 64 + l = h * 4096 + m * 64 + l" by simp
  have tr: "utf8_trails 2 h ((128 + m) # (128 + l) # rest)
            = (code_point (h * 4096 + m * 64 + l), 2)"
    using utf8_trail_byte[OF assms(2)] utf8_trail_byte[OF assms(3)]
    by (simp only: utf8_trails_2 acc)
  have "h * 4096 + m * 64 + l \<le> 65535" using assms by simp
  with assms(4) have w: "utf8_width (h * 4096 + m * 64 + l) = 2 + 1"
    by (simp add: utf8_width_def)
  show ?thesis
    by (simp only: utf8_decode_def k option.case lead tr w assms(5) prod.case decoded.case)
       simp
qed

lemma utf8_decode_four:
  assumes "h < 5" "k < 64" "m < 64" "l < 64" "65536 \<le> h * 262144 + k * 4096 + m * 64 + l"
    "is_valid_codepoint (h * 262144 + k * 4096 + m * 64 + l)"
  shows "utf8_decode (240 + h) ((128 + k) # (128 + m) # (128 + l) # rest)
         = (code_point (h * 262144 + k * 4096 + m * 64 + l), 3)"
proof -
  have t: "utf8_trail_length (240 + h) = Some 3"
    using assms by (simp add: utf8_trail_length_def)
  have lead: "(240 + h) mod 2 ^ (6 - 3) = h"
    by (rule divmod_nat_eq(2)[where q = 30]) (use assms in simp_all)
  have acc: "((h * 64 + k) * 64 + m) * 64 + l = h * 262144 + k * 4096 + m * 64 + l" by simp
  have tr: "utf8_trails 3 h ((128 + k) # (128 + m) # (128 + l) # rest)
            = (code_point (h * 262144 + k * 4096 + m * 64 + l), 3)"
    using utf8_trail_byte[OF assms(2)] utf8_trail_byte[OF assms(3)] utf8_trail_byte[OF assms(4)]
    by (simp only: utf8_trails_3 acc)
  have w: "utf8_width (h * 262144 + k * 4096 + m * 64 + l) = 3 + 1"
    using assms(5) by (simp add: utf8_width_def)
  show ?thesis
    by (simp only: utf8_decode_def t option.case lead tr w assms(6) prod.case decoded.case)
       simp
qed

lemma utf8_encode_two:
  assumes "2 \<le> h" "h < 32" "l < 64"
  shows "utf8_encode (h * 64 + l) = [192 + h, 128 + l]"
proof -
  have "127 < h * 64 + l" "h * 64 + l \<le> 2047" using assms by simp_all
  moreover have "(h * 64 + l) div 64 = h" "(h * 64 + l) mod 64 = l"
    using assms(3) by simp_all
  ultimately show ?thesis by (simp add: utf8_encode_def)
qed

lemma utf8_encode_three:
  assumes "m < 64" "l < 64" "2048 \<le> h * 4096 + m * 64 + l" "h * 4096 + m * 64 + l \<le> 65535"
  shows "utf8_encode (h * 4096 + m * 64 + l) = [224 + h, 128 + m, 128 + l]"
proof -
  let ?c = "h * 4096 + m * 64 + l"
  have d1: "?c div 4096 = h"
    by (rule divmod_nat_eq(1)[where r = "m * 64 + l"]) (use assms in simp_all)
  have d2: "?c div 64 = h * 64 + m"
    by (rule divmod_nat_eq(1)[where r = l]) (use assms in simp_all)
  have d3: "(h * 64 + m) mod 64 = m"
    by (rule divmod_nat_eq(2)[where q = h]) (use assms in simp_all)
  have d4: "?c mod 64 = l"
    by (rule divmod_nat_eq(2)[where q = "h * 64 + m"]) (use assms in simp_all)
  have r: "\<not> ?c \<le> 127" "\<not> ?c \<le> 2047" using assms(3) by simp_all
  show ?thesis
    by (simp only: utf8_encode_def r assms(4) if_True if_False d1 d2 d3 d4)
qed

lemma utf8_encode_four:
  assumes "k < 64" "m < 64" "l < 64" "65536 \<le> h * 262144 + k * 4096 + m * 64 + l"
  shows "utf8_encode (h * 262144 + k * 4096 + m * 64 + l) = [240 + h, 128 + k, 128 + m, 128 + l]"
proof -
  let ?c = "h * 262144 + k * 4096 + m * 64 + l"
  have d1: "?c div 262144 = h"
    by (rule divmod_nat_eq(1)[where r = "k * 4096 + m * 64 + l"]) (use assms in simp_all)
  have d2: "?c div 4096 = h * 64 + k"
    by (rule divmod_nat_eq(1)[where r = "m * 64 + l"]) (use assms in simp_all)
  have d3: "(h * 64 + k) mod 64 = k"
    by (rule divmod_nat_eq(2)[where q = h]) (use assms in simp_all)
  have d4: "?c div 64 = (h * 64 + k) * 64 + m"
    by (rule divmod_nat_eq(1)[where r = l]) (use assms in simp_all)
  have d5: "((h * 64 + k) * 64 + m) mod 64 = m"
    by (rule divmod_nat_eq(2)[where q = "h * 64 + k"]) (use assms in simp_all)
  have d6: "?c mod 64 = l"
    by (rule divmod_nat_eq(2)[where q = "(h * 64 + k) * 64 + m"]) (use assms in simp_all)
  have r: "\<not> ?c \<le> 127" "\<not> ?c \<le> 2047" "\<not> ?c \<le> 65535" using assms(4) by simp_all
  show ?thesis
    by (simp only: utf8_encode_def r if_True if_False d1 d2 d3 d4 d5 d6)
qed

lemma split_64: "\<exists>q l. (c::nat) = q * 64 + l \<and> l < 64"
proof (intro exI conjI)
  show "c = c div 64 * 64 + c mod 64" by simp
  show "c mod 64 < 64" by simp
qed

lemma utf8_roundtrip1:
  assumes v: "is_valid_codepoint c"
  shows "utf8_encode c \<noteq> [] \<and>
         utf8_decode (hd (utf8_encode c)) (tl (utf8_encode c) @ rest)
         = (code_point c, length (utf8_encode c) - 1)"
proof -
  consider "c \<le> 127" | "127 < c" "c \<le> 2047" | "2047 < c" "c \<le> 65535" | "65535 < c"
    by linarith
  then show ?thesis
  proof cases
    case 1
    then show ?thesis by (simp add: utf8_encode_def utf8_decode_one)
  next
    case 2
    obtain h l where c: "c = h * 64 + l" and l: "l < 64" using split_64 by blast
    have h: "2 \<le> h" "h < 32" using 2 c l by simp_all
    show ?thesis
      unfolding c utf8_encode_two[OF h l] using utf8_decode_two[OF h l, of rest] by simp
  next
    case 3
    obtain q l where c1: "c = q * 64 + l" and l: "l < 64" using split_64 by blast
    obtain h m where q: "q = h * 64 + m" and m: "m < 64" using split_64 by blast
    have c: "c = h * 4096 + m * 64 + l" by (simp add: c1 q)
    have h: "h < 16" using 3 c by simp
    have lo: "2048 \<le> h * 4096 + m * 64 + l" and hi: "h * 4096 + m * 64 + l \<le> 65535"
      using 3 c by simp_all
    show ?thesis
      unfolding c utf8_encode_three[OF m l lo hi]
      using utf8_decode_three[OF h m l lo v[unfolded c], of rest] by simp
  next
    case 4
    obtain q l where c1: "c = q * 64 + l" and l: "l < 64" using split_64 by blast
    obtain p m where q: "q = p * 64 + m" and m: "m < 64" using split_64 by blast
    obtain h k where p: "p = h * 64 + k" and k: "k < 64" using split_64 by blast
    have c: "c = h * 262144 + k * 4096 + m * 64 + l" by (simp add: c1 q p)
    have "c \<le> 1114111" using v by (simp add: is_valid_codepoint_def)
    then have h: "h < 5" using c by simp
    have lo: "65536 \<le> h * 262144 + k * 4096 + m * 64 + l" using 4 c by simp
    show ?thesis
      unfolding c utf8_encode_four[OF k m l lo]
      using utf8_decode_four[OF h k m l lo v[unfolded c], of rest] by simp
  qed
qed

lemma utf16_roundtrip1:
  assumes "is_valid_codepoint c"
  shows "utf16_encode c \<noteq> [] \<and>
         utf16_decode (hd (utf16_encode c)) (tl (utf16_encode c) @ rest)
         = (code_point c, length (utf16_encode c) - 1)"
proof (cases "c \<le> 0xFFFF")
  case True
  with assms show ?thesis
    by (auto simp: utf16_decode_def utf16_encode_def is_valid_codepoint_def)
next
  case False
  define u where "u = c - 0x10000"
  have c: "c = u + 0x10000" and u: "u < 0x100000"
    using False assms by (simp_all add: u_def is_valid_codepoint_def)
  have q: "u div 1024 < 1024" using u by simp
  have r: "u mod 1024 < 1024" by simp
  have "utf16_encode c = [0xD800 + u div 1024, 0xDC00 + u mod 1024]"
    using False by (simp add: utf16_encode_def u_def)
  moreover have "utf16_decode (0xD800 + u div 1024) ((0xDC00 + u mod 1024) # rest)
      = (code_point (u div 1024 * 1024 + u mod 1024 + 0x10000), 1)"
    using q r by (simp add: utf16_decode_def)
  ultimately show ?thesis by (simp add: c)
qed

lemma utf32_roundtrip1:
  assumes "is_valid_codepoint c"
  shows "utf32_encode c \<noteq> [] \<and>
         utf32_decode (hd (utf32_encode c)) (tl (utf32_encode c) @ rest)
         = (code_point c, length (utf32_encode c) - 1)"
  using assms by (simp add: utf32_decode_def utf32_encode_def)

lemma utf_to_utf_loop_encoded:
  assumes dec: "\<And>c rest. is_valid_codepoint c \<Longrightarrow>
          enc_in c \<noteq> [] \<and>
          decode (hd (enc_in c)) (tl (enc_in c) @ rest) = (code_point c, length (enc_in c) - 1)"
    and "list_all is_valid_codepoint cps"
  shows "utf_to_utf_loop decode enc_out how (concat (map enc_in cps))
         = Inr (concat (map enc_out cps))"
  using assms(2)
proof (induction cps)
  case Nil
  then show ?case by simp
next
  case (Cons c cps)
  then have c: "is_valid_codepoint c" and cps: "list_all is_valid_codepoint cps" by simp_all
  let ?rest = "concat (map enc_in cps)"
  from dec[OF c, of ?rest] obtain x xs where e: "enc_in c = x # xs"
    and d: "decode x (xs @ ?rest) = (code_point c, length xs)"
    by (cases "enc_in c") auto
  have "utf_to_utf_loop decode enc_out how (x # (xs @ ?rest))
        = Inr (enc_out c @ concat (map enc_out cps))"
    by (simp add: d Cons.IH[OF cps])
  then show ?case by (simp add: e)
qed

lemma utf8_bytes_two:
  assumes "194 \<le> b" "b \<le> 223" "utf8_is_trail t1"
  shows "\<exists>c. is_valid_codepoint c \<and> utf8_encode c = [b, t1]"
proof -
  define h l where "h = b - 192" and "l = t1 - 128"
  have b: "b = 192 + h" and t1: "t1 = 128 + l"
    using assms by (auto simp: h_def l_def utf8_is_trail_def)
  have h: "2 \<le> h" "h < 32" and l: "l < 64"
    using assms by (auto simp: h_def l_def utf8_is_trail_def)
  have "is_valid_codepoint (h * 64 + l)"
    using h l by (simp add: is_valid_codepoint_def)
  moreover have "utf8_encode (h * 64 + l) = [b, t1]"
    unfolding b t1 by (rule utf8_encode_two[OF h l])
  ultimately show ?thesis by blast
qed

lemma utf8_bytes_three:
  assumes "224 \<le> b" "b \<le> 239" "utf8_is_trail t1" "utf8_is_trail t2"
    "b = 224 \<longrightarrow> 160 \<le> t1" "b = 237 \<longrightarrow> t1 \<le> 159"
  shows "\<exists>c. is_valid_codepoint c \<and> utf8_encode c = [b, t1, t2]"
proof -
  define h m l where "h = b - 224" and "m = t1 - 128" and "l = t2 - 128"
  have b: "b = 224 + h" and t1: "t1 = 128 + m" and t2: "t2 = 128 + l"
    using assms by (auto simp: h_def m_def l_def utf8_is_trail_def)
  have h: "h < 16" and m: "m < 64" and l: "l < 64"
    using assms by (auto simp: h_def m_def l_def utf8_is_trail_def)
  have low: "h = 0 \<longrightarrow> 32 \<le> m" using assms(5) by (auto simp: b t1)
  have sur: "h = 13 \<longrightarrow> m < 32" using assms(6) by (auto simp: b t1)
  have lo: "2048 \<le> h * 4096 + m * 64 + l" using low by (cases "h = 0") simp_all
  have hi: "h * 4096 + m * 64 + l \<le> 65535" using h m l by simp
  have ns: "\<not> (55296 \<le> h * 4096 + m * 64 + l \<and> h * 4096 + m * 64 + l \<le> 57343)"
  proof (cases "h = 13")
    case True
    with sur l show ?thesis by simp
  next
    case False
    then have "h < 13 \<or> 13 < h" by linarith
    with m l show ?thesis by auto
  qed
  have "is_valid_codepoint (h * 4096 + m * 64 + l)"
    using hi ns by (simp add: is_valid_codepoint_def)
  moreover have "utf8_encode (h * 4096 + m * 64 + l) = [b, t1, t2]"
    unfolding b t1 t2 by (rule utf8_encode_three[OF m l lo hi])
  ultimately show ?thesis by blast
qed

lemma utf8_bytes_four:
  assumes "240 \<le> b" "b \<le> 244" "utf8_is_trail t1" "utf8_is_trail t2" "utf8_is_trail t3"
    "b = 240 \<longrightarrow> 144 \<le> t1" "b = 244 \<longrightarrow> t1 \<le> 143"
  shows "\<exists>c. is_valid_codepoint c \<and> utf8_encode c = [b, t1, t2, t3]"
proof -
  define h k m l where "h = b - 240" and "k = t1 - 128" and "m = t2 - 128" and "l = t3 - 128"
  have b: "b = 240 + h" and t1: "t1 = 128 + k" and t2: "t2 = 128 + m" and t3: "t3 = 128 + l"
    using assms by (auto simp: h_def k_def m_def l_def utf8_is_trail_def)
  have h: "h < 5" and k: "k < 64" and m: "m < 64" and l: "l < 64"
    using assms by (auto simp: h_def k_def m_def l_def utf8_is_trail_def)
  have low: "h = 0 \<longrightarrow> 16 \<le> k" using assms(6) by (auto simp: b t1)
  have top: "h = 4 \<longrightarrow> k < 16" using assms(7) by (auto simp: b t1)
  have lo: "65536 \<le> h * 262144 + k * 4096 + m * 64 + l" using low by (cases "h = 0") simp_all
  have hi: "h * 262144 + k * 4096 + m * 64 + l \<le> 1114111"
  proof (cases "h = 4")
    case True
    with top m l show ?thesis by simp
  next
    case False
    with h have "h \<le> 3" by simp
    with k m l show ?thesis by simp
  qed
  have "is_valid_codepoint (h * 262144 + k * 4096 + m * 64 + l)"
    using lo hi by (simp add: is_valid_codepoint_def)
  moreover have "utf8_encode (h * 262144 + k * 4096 + m * 64 + l) = [b, t1, t2, t3]"
    unfolding b t1 t2 t3 by (rule utf8_encode_four[OF k m l lo])
  ultimately show ?thesis by blast
qed

lemma valid_utf8_encoded:
  "valid_utf8 bs \<Longrightarrow> \<exists>cps. list_all is_valid_codepoint cps \<and> bs = concat (map utf8_encode cps)"
proof (induction bs rule: length_induct)
  case (1 bs)
  note IH = "1.IH"[rule_format]
  show ?case
  proof (cases bs)
    case Nil
    then show ?thesis by (intro exI[of _ "[]"]) simp
  next
    case (Cons b bs')
    have step: "\<exists>cps. list_all is_valid_codepoint cps \<and> bs = concat (map utf8_encode cps)"
      if c: "is_valid_codepoint c" and e: "bs = utf8_encode c @ r" and r: "valid_utf8 r"
        and len: "length r < length bs" for c r
    proof -
      from IH[OF len r] obtain cps where "list_all is_valid_codepoint cps"
        "r = concat (map utf8_encode cps)" by blast
      then show ?thesis using c e by (intro exI[of _ "c # cps"]) simp
    qed
    consider "b < 128" | "194 \<le> b" "b \<le> 223" | "224 \<le> b" "b \<le> 239" | "240 \<le> b" "b \<le> 244"
      | "128 \<le> b" "b < 194" | "244 < b"
      by linarith
    then show ?thesis
    proof cases
      case 1
      with "1.prems" Cons have r: "valid_utf8 bs'" by simp
      have "is_valid_codepoint b" using 1 by (simp add: is_valid_codepoint_def)
      moreover have "bs = utf8_encode b @ bs'" using 1 Cons by (simp add: utf8_encode_def)
      ultimately show ?thesis using r Cons by (intro step[of b bs']) simp_all
    next
      case 2
      with "1.prems" Cons obtain t1 r where bs': "bs' = t1 # r"
        and t: "utf8_is_trail t1" and r: "valid_utf8 r"
        by (cases bs') auto
      from utf8_bytes_two[OF 2 t] obtain c where "is_valid_codepoint c" "utf8_encode c = [b, t1]"
        by blast
      then show ?thesis using r Cons bs' by (intro step[of c r]) simp_all
    next
      case 3
      with "1.prems" Cons obtain t1 t2 r where bs': "bs' = t1 # t2 # r"
        and t: "utf8_is_trail t1" "utf8_is_trail t2" "b = 224 \<longrightarrow> 160 \<le> t1" "b = 237 \<longrightarrow> t1 \<le> 159"
        and r: "valid_utf8 r"
        by (cases bs'; cases "tl bs'") auto
      from utf8_bytes_three[OF 3 t] obtain c where "is_valid_codepoint c"
        "utf8_encode c = [b, t1, t2]" by blast
      then show ?thesis using r Cons bs' by (intro step[of c r]) simp_all
    next
      case 4
      with "1.prems" Cons obtain t1 t2 t3 r where bs': "bs' = t1 # t2 # t3 # r"
        and t: "utf8_is_trail t1" "utf8_is_trail t2" "utf8_is_trail t3"
          "b = 240 \<longrightarrow> 144 \<le> t1" "b = 244 \<longrightarrow> t1 \<le> 143"
        and r: "valid_utf8 r"
        by (cases bs'; cases "tl bs'"; cases "tl (tl bs')") auto
      from utf8_bytes_four[OF 4 t] obtain c where "is_valid_codepoint c"
        "utf8_encode c = [b, t1, t2, t3]" by blast
      then show ?thesis using r Cons bs' by (intro step[of c r]) simp_all
    next
      case 5
      with "1.prems" Cons show ?thesis by simp
    next
      case 6
      with "1.prems" Cons show ?thesis by simp
    qed
  qed
qed

lemma valid_utf16_encoded:
  "valid_utf16 ws \<Longrightarrow> \<exists>cps. list_all is_valid_codepoint cps \<and> ws = concat (map utf16_encode cps)"
proof (induction ws rule: length_induct)
  case (1 ws)
  note IH = "1.IH"[rule_format]
  show ?case
  proof (cases ws)
    case Nil
    then show ?thesis by (intro exI[of _ "[]"]) simp
  next
    case (Cons w ws')
    have step: "\<exists>cps. list_all is_valid_codepoint cps \<and> ws = concat (map utf16_encode cps)"
      if c: "is_valid_codepoint c" and e: "ws = utf16_encode c @ r" and r: "valid_utf16 r"
        and len: "length r < length ws" for c r
    proof -
      from IH[OF len r] obtain cps where "list_all is_valid_codepoint cps"
        "r = concat (map utf16_encode cps)" by blast
      then show ?thesis using c e by (intro exI[of _ "c # cps"]) simp
    qed
    consider "w < 55296 \<or> (57343 < w \<and> w \<le> 65535)" | "55296 \<le> w" "w \<le> 56319"
      | "56319 < w" "w \<le> 57343" | "65535 < w"
      by linarith
    then show ?thesis
    proof cases
      case 1
      with "1.prems" Cons have r: "valid_utf16 ws'" by auto
      have "is_valid_codepoint w" using 1 by (auto simp: is_valid_codepoint_def)
      moreover have "ws = utf16_encode w @ ws'" using 1 Cons by (auto simp: utf16_encode_def)
      ultimately show ?thesis using r Cons by (intro step[of w ws']) simp_all
    next
      case 2
      with "1.prems" Cons obtain w2 r where ws': "ws' = w2 # r"
        and t: "56320 \<le> w2" "w2 \<le> 57343" and r: "valid_utf16 r"
        by (cases ws') auto
      define q l where "q = w - 55296" and "l = w2 - 56320"
      have w: "w = 55296 + q" and w2: "w2 = 56320 + l" and q: "q < 1024" and l: "l < 1024"
        using 2 t by (simp_all add: q_def l_def)
      let ?c = "q * 1024 + l + 65536"
      have v: "is_valid_codepoint ?c" using q l by (simp add: is_valid_codepoint_def)
      have "(?c - 65536) div 1024 = q" "(?c - 65536) mod 1024 = l" using l by simp_all
      then have "utf16_encode ?c = [w, w2]"
        by (simp add: utf16_encode_def w w2)
      then show ?thesis using v r Cons ws' by (intro step[of ?c r]) simp_all
    next
      case 3
      with "1.prems" Cons show ?thesis by simp
    next
      case 4
      with "1.prems" Cons show ?thesis by simp
    qed
  qed
qed

lemma utf8_encode_bound:
  assumes "is_valid_codepoint c"
  shows "\<forall>b\<in>set (utf8_encode c). b < 256"
proof -
  have "c \<le> 1114111" using assms by (simp add: is_valid_codepoint_def)
  then have "c div 262144 < 16" by (intro less_mult_imp_div_less) simp
  moreover have "c \<le> 65535 \<Longrightarrow> c div 4096 < 16" by (intro less_mult_imp_div_less) simp
  moreover have "c \<le> 2047 \<Longrightarrow> c div 64 < 32" by (intro less_mult_imp_div_less) simp
  moreover have "c mod 64 < 64" "c div 64 mod 64 < 64" "c div 4096 mod 64 < 64" by simp_all
  ultimately show ?thesis by (auto simp: utf8_encode_def)
qed

lemma utf16_encode_bound:
  assumes "is_valid_codepoint c"
  shows "\<forall>w\<in>set (utf16_encode c). w < 65536"
proof -
  have "c \<le> 1114111" using assms by (simp add: is_valid_codepoint_def)
  then have "(c - 65536) div 1024 < 1024" by (intro less_mult_imp_div_less) simp
  moreover have "(c - 65536) mod 1024 < 1024" by simp
  ultimately show ?thesis by (auto simp: utf16_encode_def)
qed

lemma utf32_encode_bound:
  assumes "is_valid_codepoint c"
  shows "\<forall>w\<in>set (utf32_encode c). w < 4294967296"
  using assms by (simp add: utf32_encode_def is_valid_codepoint_def)

lemma utf_traits_round_trip:
  assumes "LENGTH('u::len) = 8 \<or> LENGTH('u) = 16 \<or> LENGTH('u) = 32" and "is_valid_codepoint c"
  shows "utf_traits_encode TYPE('u) c \<noteq> [] \<and>
         utf_traits_decode TYPE('u) (hd (utf_traits_encode TYPE('u) c))
             (tl (utf_traits_encode TYPE('u) c) @ rest)
           = (code_point c, length (utf_traits_encode TYPE('u) c) - 1)"
  using assms utf8_roundtrip1[OF assms(2), of rest] utf16_roundtrip1[OF assms(2), of rest]
    utf32_roundtrip1[OF assms(2), of rest]
  by (auto simp: utf_traits_encode_def utf_traits_decode_def)

lemma utf_traits_encode_bound:
  assumes "LENGTH('u::len) = 8 \<or> LENGTH('u) = 16 \<or> LENGTH('u) = 32" and "is_valid_codepoint c"
  shows "\<forall>x\<in>set (utf_traits_encode TYPE('u) c). x < 2 ^ LENGTH('u)"
  using assms utf8_encode_bound[OF assms(2)] utf16_encode_bound[OF assms(2)]
    utf32_encode_bound[OF assms(2)]
  by (auto simp: utf_traits_encode_def)

lemma valid_units_encoded:
  assumes "valid_units TYPE('u::len) xs"
  shows "\<exists>cps. list_all is_valid_codepoint cps \<and> xs = concat (map (utf_traits_encode TYPE('u)) cps)"
proof -
  consider "LENGTH('u) = 8" | "LENGTH('u) \<noteq> 8" "LENGTH('u) = 16"
    | "LENGTH('u) \<noteq> 8" "LENGTH('u) \<noteq> 16" by blast
  then show ?thesis
  proof cases
    case 1
    then show ?thesis
      using assms valid_utf8_encoded[of xs] by (simp add: valid_units_def utf_traits_encode_def)
  next
    case 2
    then show ?thesis
      using assms valid_utf16_encoded[of xs] by (simp add: valid_units_def utf_traits_encode_def)
  next
    case 3
    have "xs = concat (map utf32_encode xs)" by (induction xs) (simp_all add: utf32_encode_def)
    moreover have "list_all is_valid_codepoint xs"
      using assms 3 by (simp add: valid_units_def valid_utf32_def)
    ultimately show ?thesis using 3 by (auto simp: utf_traits_encode_def)
  qed
qed

lemma map_unat_of_nat:
  "\<forall>x\<in>set xs. x < 2 ^ LENGTH('a::len) \<Longrightarrow> map unat (map of_nat xs :: 'a word list) = xs"
  by (induction xs) (simp_all add: unat_of_nat)

lemma map_of_nat_unat: "map of_nat (map unat ws) = (ws :: 'a::len word list)"
  by (induction ws) simp_all

lemma encoded_bound:
  assumes "LENGTH('u::len) = 8 \<or> LENGTH('u) = 16 \<or> LENGTH('u) = 32"
    and "list_all is_valid_codepoint cps"
  shows "\<forall>x\<in>set (concat (map (utf_traits_encode TYPE('u)) cps)). x < 2 ^ LENGTH('u)"
  using assms(2) utf_traits_encode_bound[OF assms(1)]
  by (induction cps) auto

lemma boost_utf_to_utf_encoded:
  assumes i: "LENGTH('i::len) = 8 \<or> LENGTH('i) = 16 \<or> LENGTH('i) = 32"
    and cps: "list_all is_valid_codepoint cps"
  shows "(boost_utf_to_utf how
            (map of_nat (concat (map (utf_traits_encode TYPE('i)) cps)) :: 'i word list)
          :: error + 'o::len word list)
         = Inr (map of_nat (concat (map (utf_traits_encode TYPE('o)) cps)))"
proof -
  have "map unat (map of_nat (concat (map (utf_traits_encode TYPE('i)) cps)) :: 'i word list)
        = concat (map (utf_traits_encode TYPE('i)) cps)"
    by (rule map_unat_of_nat[OF encoded_bound[OF i cps]])
  moreover have "utf_to_utf_loop (utf_traits_decode TYPE('i)) (utf_traits_encode TYPE('o)) how
      (concat (map (utf_traits_encode TYPE('i)) cps))
      = Inr (concat (map (utf_traits_encode TYPE('o)) cps))"
    by (rule utf_to_utf_loop_encoded[OF utf_traits_round_trip[OF i] cps])
  ultimately show ?thesis by (simp add: boost_utf_to_utf_def)
qed

lemma boost_utf_to_utf_round_trip:
  fixes str :: "'i::len word list"
  assumes i: "LENGTH('i) = 8 \<or> LENGTH('i) = 16 \<or> LENGTH('i) = 32"
    and out: "LENGTH('o::len) = 8 \<or> LENGTH('o) = 16 \<or> LENGTH('o) = 32"
    and v: "valid_string str"
  shows "\<exists>t :: 'o word list.
           boost_utf_to_utf how str = Inr t \<and> boost_utf_to_utf how' t = Inr str"
proof -
  from v obtain cps where cps: "list_all is_valid_codepoint cps"
    and e: "map unat str = concat (map (utf_traits_encode TYPE('i)) cps)"
    unfolding valid_string_def using valid_units_encoded by blast
  have s: "str = map of_nat (concat (map (utf_traits_encode TYPE('i)) cps))"
    using e map_of_nat_unat[of str] by simp
  let ?t = "map of_nat (concat (map (utf_traits_encode TYPE('o)) cps)) :: 'o word list"
  have "boost_utf_to_utf how str = Inr ?t"
    unfolding s by (rule boost_utf_to_utf_encoded[OF i cps])
  moreover have "boost_utf_to_utf how' ?t = Inr str"
    unfolding s by (rule boost_utf_to_utf_encoded[OF out cps])
  ultimately show ?thesis by blast
qed

text \<open>
  Claim C6. With the transcoder of the model, under either method and on both widths of
  \<^verbatim>\<open>wchar_t\<close>: for every well-formed wide string \<open>s\<close>, \<^verbatim>\<open>to_utf8(s)\<close> succeeds and
  \<^verbatim>\<open>to_wstring(to_utf8(s))\<close> is \<open>s\<close>; and for every well-formed UTF-8 string \<open>u\<close> (which
  holds no surrogate, paired or not), \<^verbatim>\<open>to_wstring(u)\<close> succeeds and
  \<^verbatim>\<open>to_utf8(to_wstring(u))\<close> is \<open>u\<close>.
\<close>

theorem utf8_wide_round_trip:
  fixes s :: "'w::len word list" and u :: "8 word list"
  assumes "LENGTH('w) = 16 \<or> LENGTH('w) = 32"
  shows "(valid_string s \<longrightarrow>
            (\<exists>u'. to_utf8_wstring (boost_utf_to_utf how) s = Inr u'
                 \<and> to_wstring_string (boost_utf_to_utf how') u' = Inr s))
       \<and> (valid_string u \<longrightarrow>
            (\<exists>s' :: 'w word list. to_wstring_string (boost_utf_to_utf how) u = Inr s'
                 \<and> to_utf8_wstring (boost_utf_to_utf how') s' = Inr u))"
proof (intro conjI impI)
  have w: "LENGTH('w) = 8 \<or> LENGTH('w) = 16 \<or> LENGTH('w) = 32" using assms by blast
  have c: "LENGTH(8) = 8 \<or> LENGTH(8) = 16 \<or> LENGTH(8) = 32" by simp
  {
    assume "valid_string s"
    from boost_utf_to_utf_round_trip[OF w c this]
    show "\<exists>u'. to_utf8_wstring (boost_utf_to_utf how) s = Inr u'
                 \<and> to_wstring_string (boost_utf_to_utf how') u' = Inr s"
      by (simp add: to_utf8_wstring_def to_wstring_string_def)
  }
  {
    assume "valid_string u"
    from boost_utf_to_utf_round_trip[OF c w this]
    show "\<exists>s' :: 'w word list. to_wstring_string (boost_utf_to_utf how) u = Inr s'
                 \<and> to_utf8_wstring (boost_utf_to_utf how') s' = Inr u"
      by (simp add: to_utf8_wstring_def to_wstring_string_def)
  }
qed

lemma cafe_valid8: "valid_string [0x63, 0x61, 0x66, 0xC3, 0xA9 :: 8 word]"
  by (simp add: valid_string_def valid_units_def utf8_is_trail_def)

lemma cafe_valid32: "valid_string [0x63, 0x61, 0x66, 0xE9 :: 32 word]"
  by (simp add: valid_string_def valid_units_def valid_utf32_def is_valid_codepoint_def)

lemma cafe_to_wstring:
  "to_wstring_string (boost_utf_to_utf stop) [0x63, 0x61, 0x66, 0xC3, 0xA9]
     = Inr [0x63, 0x61, 0x66, 0xE9 :: 32 word]"
  by (simp add: to_wstring_string_def boost_utf_to_utf_def utf_traits_decode_def
      utf_traits_encode_def utf8_decode_def utf8_trail_length_def utf8_is_trail_def
      is_valid_codepoint_def utf8_width_def utf32_encode_def)

lemma lone_surrogate_stop:
  "(boost_utf_to_utf stop [0xD800 :: 32 word] :: error + 8 word list) = Inl conversion_error"
  by (simp add: boost_utf_to_utf_def utf_traits_decode_def
      utf_traits_encode_def utf32_decode_def is_valid_codepoint_def)

lemma emoji16_valid: "valid_string [0xD83D, 0xDE00 :: 16 word]"
  by (simp add: valid_string_def valid_units_def)

lemma emoji16_to_utf8:
  "to_utf8_wstring (boost_utf_to_utf stop) [0xD83D, 0xDE00 :: 16 word]
     = Inr [0xF0, 0x9F, 0x98, 0x80]"
  by (simp add: to_utf8_wstring_def boost_utf_to_utf_def utf_traits_decode_def
      utf_traits_encode_def utf16_decode_def utf8_encode_def)

theorem utf8_wide_round_trip_witness:
  "valid_string [0x63, 0x61, 0x66, 0xE9 :: 32 word]
   \<and> valid_string [0x63, 0x61, 0x66, 0xC3, 0xA9 :: 8 word]
   \<and> to_wstring_string (boost_utf_to_utf stop) [0x63, 0x61, 0x66, 0xC3, 0xA9]
       = Inr [0x63, 0x61, 0x66, 0xE9 :: 32 word]
   \<and> to_utf8_wstring (boost_utf_to_utf skip) [0x63, 0x61, 0x66, 0xE9 :: 32 word]
       = Inr [0x63, 0x61, 0x66, 0xC3, 0xA9]
   \<and> valid_string [0xD83D, 0xDE00 :: 16 word]
   \<and> to_utf8_wstring (boost_utf_to_utf stop) [0xD83D, 0xDE00 :: 16 word]
       = Inr [0xF0, 0x9F, 0x98, 0x80]
   \<and> to_wstring_string (boost_utf_to_utf skip) [0xF0, 0x9F, 0x98, 0x80]
       = Inr [0xD83D, 0xDE00 :: 16 word]"
proof -
  have "\<exists>s' :: 32 word list.
          to_wstring_string (boost_utf_to_utf stop) [0x63, 0x61, 0x66, 0xC3, 0xA9] = Inr s'
          \<and> to_utf8_wstring (boost_utf_to_utf skip) s' = Inr [0x63, 0x61, 0x66, 0xC3, 0xA9]"
    using utf8_wide_round_trip[where 'w = 32, of "[]" stop skip "[0x63, 0x61, 0x66, 0xC3, 0xA9]"]
      cafe_valid8 by simp
  then have a: "to_utf8_wstring (boost_utf_to_utf skip) [0x63, 0x61, 0x66, 0xE9 :: 32 word]
       = Inr [0x63, 0x61, 0x66, 0xC3, 0xA9]"
    unfolding cafe_to_wstring by simp
  have "\<exists>u'. to_utf8_wstring (boost_utf_to_utf stop) [0xD83D, 0xDE00 :: 16 word] = Inr u'
          \<and> to_wstring_string (boost_utf_to_utf skip) u' = Inr [0xD83D, 0xDE00 :: 16 word]"
    using utf8_wide_round_trip[where 'w = 16, of "[0xD83D, 0xDE00]" stop skip "[]"]
      emoji16_valid by simp
  then have b: "to_wstring_string (boost_utf_to_utf skip) [0xF0, 0x9F, 0x98, 0x80]
       = Inr [0xD83D, 0xDE00 :: 16 word]"
    unfolding emoji16_to_utf8 by simp
  show ?thesis
    using a b cafe_valid8 cafe_valid32 cafe_to_wstring emoji16_valid emoji16_to_utf8 by simp
qed










lemma c_string_terminated: "0 \<notin> set s \<Longrightarrow> c_string (s @ 0 # rest) = Some s"
proof -
  assume "0 \<notin> set s"
  then have "takeWhile (\<lambda>u. u \<noteq> 0) (s @ 0 # rest) = s"
    by (induction s) simp_all
  then show ?thesis by (simp add: c_string_def)
qed

text \<open>
  Claim C10. \<^verbatim>\<open>to_utf8(const unsigned char*)\<close> returns the bytes before the terminator
  as they are, for every NUL-terminated byte sequence: no transcoder is called and
  nothing is validated. The \<^verbatim>\<open>wchar_t\<close> overload passes the characters before the
  terminator to the transcoder instead.
\<close>

theorem to_utf8_unsigned_char_verbatim:
  assumes "0 \<notin> set s" and "0 \<notin> set ws"
  shows "to_utf8_unsigned_char (s @ 0 # rest) = Inr s
       \<and> to_utf8_wchar_t T (ws @ 0 # rest') = T ws"
  using assms by (simp add: to_utf8_unsigned_char_def to_utf8_wchar_t_def c_string_terminated)

theorem to_utf8_unsigned_char_verbatim_witness:
  "0 \<notin> set [0x80 :: 8 word] \<and> 0 \<notin> set [0xD800 :: 32 word]
   \<and> to_utf8_unsigned_char [0x80, 0] = Inr [0x80]
   \<and> to_utf8_wchar_t (boost_utf_to_utf stop) [0xD800 :: 32 word, 0] = Inl conversion_error
   \<and> to_utf8_wchar_t (boost_utf_to_utf skip) [0xD800 :: 32 word, 0] = Inr []"
proof -
  have "(boost_utf_to_utf skip [0xD800 :: 32 word] :: error + 8 word list) = Inr []"
    by (simp add: boost_utf_to_utf_def utf_traits_decode_def
        utf_traits_encode_def utf32_decode_def is_valid_codepoint_def)
  then show ?thesis
    using to_utf8_unsigned_char_verbatim[of "[0x80]" "[0xD800 :: 32 word]" "[]"
        "boost_utf_to_utf stop" "[]"]
      to_utf8_unsigned_char_verbatim[of "[0x80]" "[0xD800 :: 32 word]" "[]"
        "boost_utf_to_utf skip" "[]"]
      lone_surrogate_stop
    by simp
qed

section \<open>The zero-copy views\<close>




end
